theory Spec2Isabelle
  imports Main "HOL-Library.Word" "HOL-Library.Monad_Syntax"
begin

unbundle bit_operations_syntax

section \<open>dsk2woz2: data model\<close>

text \<open>
  The program is a single C file, \<^verbatim>\<open>dsk2woz2.c\<close>. Bytes are \<^verbatim>\<open>uint8_t\<close>, the
  other fixed-width integers are words of their width, and \<^verbatim>\<open>size_t\<close> indices and
  lengths are natural numbers (no index of the program comes near \<open>2 ^ 64\<close>). A C
  array is a list of bytes. A pointer \<^verbatim>\<open>&a[k]\<close> handed to a callee is either the pair of
  the array and the offset \<open>k\<close> (the \<^verbatim>\<open>write_*\<close> routines and \<^verbatim>\<open>write_chunk\<close>) or the
  suffix \<open>drop k a\<close>, spliced back after the call (the track encoder and \<^verbatim>\<open>crc32\<close>).
  Reading or writing outside an array is undefined behaviour in C; here it is the result
  \<open>None\<close>, so every function that touches memory returns an option.
\<close>

type_synonym uint8 = "8 word"
type_synonym uint16 = "16 word"
type_synonym uint32 = "32 word"

abbreviation (input) TRACKS_PER_DISK :: nat where "TRACKS_PER_DISK \<equiv> 35"
abbreviation (input) SECTORS_PER_TRACK :: nat where "SECTORS_PER_TRACK \<equiv> 16"
abbreviation (input) BYTES_PER_SECTOR :: nat where "BYTES_PER_SECTOR \<equiv> 256"
abbreviation (input) BYTES_PER_TRACK :: nat where "BYTES_PER_TRACK \<equiv> SECTORS_PER_TRACK * BYTES_PER_SECTOR"
abbreviation (input) DSK_IMAGE_SIZE :: nat where "DSK_IMAGE_SIZE \<equiv> TRACKS_PER_DISK * BYTES_PER_TRACK"

abbreviation (input) BITS_BLOCKS_PER_TRACK :: nat where "BITS_BLOCKS_PER_TRACK \<equiv> 13"
abbreviation (input) BITS_BLOCK_SIZE :: nat where "BITS_BLOCK_SIZE \<equiv> 512"
abbreviation (input) BITS_TRACK_SIZE :: nat where "BITS_TRACK_SIZE \<equiv> BITS_BLOCKS_PER_TRACK * BITS_BLOCK_SIZE"
abbreviation (input) BITS_SECTOR_CONTENTS_SIZE :: nat where "BITS_SECTOR_CONTENTS_SIZE \<equiv> 343"
abbreviation (input) WOZ_HEADER_SIZE :: nat where "WOZ_HEADER_SIZE \<equiv> 12"

abbreviation (input) DOS_VOLUME_NUMBER :: int where "DOS_VOLUME_NUMBER \<equiv> 254"
abbreviation (input) TRACK_LEADER_SYNC_COUNT :: nat where "TRACK_LEADER_SYNC_COUNT \<equiv> 64"

datatype dsk_sector_format = dsk_sector_format_dos_3_3 | dsk_sector_format_prodos

text \<open>
  \<^verbatim>\<open>struct _woz_chunk\<close>: the flexible array member \<^verbatim>\<open>data\<close> is the list of the
  \<^verbatim>\<open>data_length\<close> payload bytes that \<^verbatim>\<open>create_chunk\<close> allocates behind the struct.
\<close>

record woz_chunk =
  name :: uint32
  data_length :: nat
  data :: "uint8 list"

subsection \<open>Memory access and loops\<close>

definition array_get :: "'a list \<Rightarrow> nat \<Rightarrow> 'a option" where
  "array_get a i = (if i < length a then Some (a ! i) else None)"

definition array_set :: "'a list \<Rightarrow> nat \<Rightarrow> 'a \<Rightarrow> 'a list option" where
  "array_set a i x = (if i < length a then Some (a[i := x]) else None)"

text \<open>
  \<^verbatim>\<open>memset(dest, c, n)\<close> and \<^verbatim>\<open>memcpy(&dest[off], src, n)\<close>.
\<close>

definition memset :: "uint8 list \<Rightarrow> uint8 \<Rightarrow> nat \<Rightarrow> uint8 list option" where
  "memset dest c n = (if n \<le> length dest then Some (replicate n c @ drop n dest) else None)"

definition memcpy :: "uint8 list \<Rightarrow> nat \<Rightarrow> uint8 list \<Rightarrow> nat \<Rightarrow> uint8 list option" where
  "memcpy dest off src n =
     (if off + n \<le> length dest \<and> n \<le> length src
      then Some (take off dest @ take n src @ drop (off + n) dest) else None)"

text \<open>
  The loop \<^verbatim>\<open>for (int i = a; i < n; i++) body\<close> over a state \<open>s\<close> of the variables the
  body assigns. The body may fail (an access out of bounds), which ends the run.
\<close>

function for_loop :: "nat \<Rightarrow> nat \<Rightarrow> (nat \<Rightarrow> 's \<Rightarrow> 's option) \<Rightarrow> 's \<Rightarrow> 's option" where
  "for_loop i n body s =
     (if i < n
      then (case body i s of None \<Rightarrow> None | Some s' \<Rightarrow> for_loop (i + 1) n body s')
      else Some s)"
  by pat_completeness auto
termination
  by (relation "measure (\<lambda>(i, n, body, s). n - i)") auto

declare for_loop.simps [simp del]

subsection \<open>Byte writers\<close>

definition write_uint8 :: "uint8 list \<Rightarrow> nat \<Rightarrow> uint8 \<Rightarrow> uint8 list option" where
  "write_uint8 dest off v = array_set dest off v"

definition write_uint16 :: "uint8 list \<Rightarrow> nat \<Rightarrow> uint16 \<Rightarrow> uint8 list option" where
  "write_uint16 dest off v = do {
     dest \<leftarrow> array_set dest off (ucast (v AND 0xFF));
     array_set dest (off + 1) (ucast (drop_bit 8 v AND 0xFF))
   }"

definition write_uint32 :: "uint8 list \<Rightarrow> nat \<Rightarrow> uint32 \<Rightarrow> uint8 list option" where
  "write_uint32 dest off v = do {
     dest \<leftarrow> array_set dest off (ucast (v AND 0xFF));
     dest \<leftarrow> array_set dest (off + 1) (ucast (drop_bit 8 v AND 0xFF));
     dest \<leftarrow> array_set dest (off + 2) (ucast (drop_bit 16 v AND 0xFF));
     array_set dest (off + 3) (ucast (drop_bit 24 v AND 0xFF))
   }"

definition write_uint32_be :: "uint8 list \<Rightarrow> nat \<Rightarrow> uint32 \<Rightarrow> uint8 list option" where
  "write_uint32_be dest off v = do {
     dest \<leftarrow> array_set dest off (ucast (drop_bit 24 v AND 0xFF));
     dest \<leftarrow> array_set dest (off + 1) (ucast (drop_bit 16 v AND 0xFF));
     dest \<leftarrow> array_set dest (off + 2) (ucast (drop_bit 8 v AND 0xFF));
     array_set dest (off + 3) (ucast (v AND 0xFF))
   }"

text \<open>
  \<^verbatim>\<open>write_utf8(dest, utf8string, n)\<close>: the string is the list of its bytes before the
  terminating NUL, so \<^verbatim>\<open>strlen\<close> is its length.
\<close>

definition write_utf8 :: "uint8 list \<Rightarrow> nat \<Rightarrow> uint8 list \<Rightarrow> nat \<Rightarrow> uint8 list option" where
  "write_utf8 dest off utf8string n =
     (let l = length utf8string in
      for_loop 0 n (\<lambda>i dest. array_set dest (off + i) (if i < l then utf8string ! i else 0x20)) dest)"

section \<open>Track encoding\<close>

subsection \<open>The bit writer\<close>

text \<open>
  \<^verbatim>\<open>bits_write_byte(buffer, index, value)\<close> returns the new index and updates the
  buffer; the model returns both. \<^verbatim>\<open>value\<close> is a C \<^verbatim>\<open>int\<close>: the shifts and the OR are
  done on integers, and the assignment to a \<^verbatim>\<open>uint8_t\<close> keeps the low eight bits
  (\<open>word_of_int\<close>).
\<close>

definition bits_write_byte :: "uint8 list \<Rightarrow> nat \<Rightarrow> int \<Rightarrow> (uint8 list \<times> nat) option" where
  "bits_write_byte buffer index val =
     (let shift = index AND 7;
          byte_position = drop_bit 3 index
      in do {
        b \<leftarrow> array_get buffer byte_position;
        buffer \<leftarrow> array_set buffer byte_position (word_of_int (uint b OR drop_bit shift val));
        buffer \<leftarrow>
          (if shift \<noteq> 0 then do {
             b1 \<leftarrow> array_get buffer (byte_position + 1);
             array_set buffer (byte_position + 1)
               (word_of_int (uint b1 OR push_bit (8 - shift) val))
           } else Some buffer);
        Some (buffer, index + 8)
      })"

text \<open>Writes a byte in 4-and-4.\<close>

definition bits_write_4_and_4 :: "uint8 list \<Rightarrow> nat \<Rightarrow> int \<Rightarrow> (uint8 list \<times> nat) option" where
  "bits_write_4_and_4 buffer index val = do {
     (buffer, index) \<leftarrow> bits_write_byte buffer index (drop_bit 1 val OR 0xAA);
     (buffer, index) \<leftarrow> bits_write_byte buffer index (val OR 0xAA);
     Some (buffer, index)
   }"

text \<open>Writes a 6-and-2 sync word: the byte, then two bits skipped (left as zeros).\<close>

definition bits_write_sync :: "uint8 list \<Rightarrow> nat \<Rightarrow> (uint8 list \<times> nat) option" where
  "bits_write_sync buffer index = do {
     (buffer, index) \<leftarrow> bits_write_byte buffer index 0xFF;
     Some (buffer, index + 2)
   }"

subsection \<open>6-and-2 encoding of a sector\<close>

definition six_and_two_mapping :: "uint8 list" where
  "six_and_two_mapping =
    [0x96, 0x97, 0x9a, 0x9b, 0x9d, 0x9e, 0x9f, 0xa6,
     0xa7, 0xab, 0xac, 0xad, 0xae, 0xaf, 0xb2, 0xb3,
     0xb4, 0xb5, 0xb6, 0xb7, 0xb9, 0xba, 0xbb, 0xbc,
     0xbd, 0xbe, 0xbf, 0xcb, 0xcd, 0xce, 0xcf, 0xd3,
     0xd6, 0xd7, 0xd9, 0xda, 0xdb, 0xdc, 0xdd, 0xde,
     0xdf, 0xe5, 0xe6, 0xe7, 0xe9, 0xea, 0xeb, 0xec,
     0xed, 0xee, 0xef, 0xf2, 0xf3, 0xf4, 0xf5, 0xf6,
     0xf7, 0xf9, 0xfa, 0xfb, 0xfc, 0xfd, 0xfe, 0xff]"

definition bit_reverse :: "uint8 list" where
  "bit_reverse = [0, 2, 1, 3]"

text \<open>
  \<^verbatim>\<open>bit_reverse[src[c] & 3]\<close>, a read of the source followed by a read of the table.
\<close>

definition low_bits :: "uint8 list \<Rightarrow> nat \<Rightarrow> uint8 option" where
  "low_bits src c = do {
     b \<leftarrow> array_get src c;
     array_get bit_reverse (unat (b AND 3))
   }"

text \<open>
  The loop \<^verbatim>\<open>while (location > 1) { location--; dest[location] ^= dest[location-1]; }\<close>.
\<close>

function xor_chain :: "nat \<Rightarrow> uint8 list \<Rightarrow> uint8 list option" where
  "xor_chain location dest =
     (if location > 1
      then (let location = location - 1 in do {
              a \<leftarrow> array_get dest location;
              b \<leftarrow> array_get dest (location - 1);
              dest \<leftarrow> array_set dest location (a XOR b);
              xor_chain location dest
            })
      else Some dest)"
  by pat_completeness auto
termination
  by (relation "measure (\<lambda>(location, dest). location)") auto

declare xor_chain.simps [simp del]

text \<open>
  The bodies of the three \<^verbatim>\<open>for\<close> loops of \<^verbatim>\<open>encode_6_and_2\<close>, each over the
  destination buffer. The operands are promoted to \<^verbatim>\<open>int\<close> in C and the result is cut to
  eight bits by the assignment; OR and the shifts used here commute with that cut, so they
  are done on bytes. The last loop reads the 64-entry table at the index \<^verbatim>\<open>dest[c]\<close>; the
  read is guarded like every other.
\<close>

definition pack_low_bits :: "uint8 list \<Rightarrow> nat \<Rightarrow> uint8 list \<Rightarrow> uint8 list option" where
  "pack_low_bits src c dest = do {
     r0 \<leftarrow> low_bits src c;
     r1 \<leftarrow> low_bits src (c + 86);
     r2 \<leftarrow> low_bits src (c + 172);
     array_set dest c (r0 OR push_bit 2 r1 OR push_bit 4 r2)
   }"

definition copy_high_bits :: "uint8 list \<Rightarrow> nat \<Rightarrow> uint8 list \<Rightarrow> uint8 list option" where
  "copy_high_bits src c dest = do {
     b \<leftarrow> array_get src c;
     array_set dest (86 + c) (drop_bit 2 b)
   }"

definition map_six_bits :: "nat \<Rightarrow> uint8 list \<Rightarrow> uint8 list option" where
  "map_six_bits c dest = do {
     b \<leftarrow> array_get dest c;
     m \<leftarrow> array_get six_and_two_mapping (unat b);
     array_set dest c m
   }"

text \<open>
  \<^verbatim>\<open>encode_6_and_2(dest, src)\<close> up to the copy of byte 341 into byte 342.
\<close>

definition encode_6_and_2_fill :: "uint8 list \<Rightarrow> uint8 list \<Rightarrow> uint8 list option" where
  "encode_6_and_2_fill dest src = do {
     dest \<leftarrow> for_loop 0 84 (pack_low_bits src) dest;
     r0 \<leftarrow> low_bits src 84;
     r1 \<leftarrow> low_bits src 170;
     dest \<leftarrow> array_set dest 84 (push_bit 0 r0 OR push_bit 2 r1);
     r0 \<leftarrow> low_bits src 85;
     r1 \<leftarrow> low_bits src 171;
     dest \<leftarrow> array_set dest 85 (push_bit 0 r0 OR push_bit 2 r1);
     dest \<leftarrow> for_loop 0 256 (copy_high_bits src) dest;
     b \<leftarrow> array_get dest 341;
     array_set dest 342 b
   }"

text \<open>
  The bytes as they stand when the final loop starts: after the fill and the XOR chain.
\<close>

definition encode_6_and_2_chained :: "uint8 list \<Rightarrow> uint8 list \<Rightarrow> uint8 list option" where
  "encode_6_and_2_chained dest src = do {
     dest \<leftarrow> encode_6_and_2_fill dest src;
     xor_chain 342 dest
   }"

text \<open>\<^verbatim>\<open>encode_6_and_2(dest, src)\<close>.\<close>

definition encode_6_and_2 :: "uint8 list \<Rightarrow> uint8 list \<Rightarrow> uint8 list option" where
  "encode_6_and_2 dest src = do {
     dest \<leftarrow> encode_6_and_2_chained dest src;
     for_loop 0 343 map_six_bits dest
   }"

subsection \<open>Sector interleave\<close>

text \<open>
  The logical sector that \<^verbatim>\<open>encode_bits_for_track\<close> puts into physical sector \<open>s\<close>.
  \<open>s\<close> is never negative, so C's \<^verbatim>\<open>%\<close> is \<open>mod\<close>.
\<close>

definition logical_sector :: "dsk_sector_format \<Rightarrow> nat \<Rightarrow> nat" where
  "logical_sector sector_format s =
     (if s = 0x0F then 0x0F
      else (let multiplier = (if sector_format = dsk_sector_format_prodos then 8 else 7)
            in (s * multiplier) mod 15))"

subsection \<open>One track\<close>

text \<open>
  The loops of \<^verbatim>\<open>encode_bits_for_track\<close> run over the destination buffer and
  \<^verbatim>\<open>bit_index\<close>. \<open>write_sync_word\<close> is the body of the loops that write sync words,
  \<open>write_encoded_byte\<close> that of the loop over \<^verbatim>\<open>encoded_contents\<close>, and
  \<open>encode_bits_for_sector\<close> that of the loop over the physical sectors \<open>s\<close>. \<^verbatim>\<open>src\<close> is
  the suffix of the disk image that starts at the track, so
  \<^verbatim>\<open>&src[logical_sector * BYTES_PER_SECTOR]\<close> is a suffix of it. The local array \<^verbatim>\<open>encoded_contents\<close> is not initialised in C; it starts
  here as zeros, and \<^verbatim>\<open>encode_6_and_2\<close> overwrites each of its 343 bytes.
\<close>

definition write_sync_word :: "nat \<Rightarrow> uint8 list \<times> nat \<Rightarrow> (uint8 list \<times> nat) option" where
  "write_sync_word i = (\<lambda>(dest, bit_index). bits_write_sync dest bit_index)"

definition write_encoded_byte ::
  "uint8 list \<Rightarrow> nat \<Rightarrow> uint8 list \<times> nat \<Rightarrow> (uint8 list \<times> nat) option" where
  "write_encoded_byte encoded_contents i = (\<lambda>(dest, bit_index). do {
     b \<leftarrow> array_get encoded_contents i;
     bits_write_byte dest bit_index (uint b)
   })"

definition encode_bits_for_sector ::
  "uint8 list \<Rightarrow> int \<Rightarrow> dsk_sector_format \<Rightarrow> nat \<Rightarrow> uint8 list \<times> nat \<Rightarrow> (uint8 list \<times> nat) option" where
  "encode_bits_for_sector src track_number sector_format s = (\<lambda>(dest, bit_index). do {
     (dest, bit_index) \<leftarrow> bits_write_byte dest bit_index 0xD5;
     (dest, bit_index) \<leftarrow> bits_write_byte dest bit_index 0xAA;
     (dest, bit_index) \<leftarrow> bits_write_byte dest bit_index 0x96;
     (dest, bit_index) \<leftarrow> bits_write_4_and_4 dest bit_index DOS_VOLUME_NUMBER;
     (dest, bit_index) \<leftarrow> bits_write_4_and_4 dest bit_index track_number;
     (dest, bit_index) \<leftarrow> bits_write_4_and_4 dest bit_index (int s);
     (dest, bit_index) \<leftarrow>
        bits_write_4_and_4 dest bit_index (DOS_VOLUME_NUMBER XOR track_number XOR int s);
     (dest, bit_index) \<leftarrow> bits_write_byte dest bit_index 0xDE;
     (dest, bit_index) \<leftarrow> bits_write_byte dest bit_index 0xAA;
     (dest, bit_index) \<leftarrow> bits_write_byte dest bit_index 0xEB;
     (dest, bit_index) \<leftarrow>
        for_loop 0 7 write_sync_word (dest, bit_index);
     (dest, bit_index) \<leftarrow> bits_write_byte dest bit_index 0xD5;
     (dest, bit_index) \<leftarrow> bits_write_byte dest bit_index 0xAA;
     (dest, bit_index) \<leftarrow> bits_write_byte dest bit_index 0xAD;
     encoded_contents \<leftarrow>
        encode_6_and_2 (replicate BITS_SECTOR_CONTENTS_SIZE 0)
          (drop (logical_sector sector_format s * BYTES_PER_SECTOR) src);
     (dest, bit_index) \<leftarrow>
        for_loop 0 BITS_SECTOR_CONTENTS_SIZE (write_encoded_byte encoded_contents)
          (dest, bit_index);
     (dest, bit_index) \<leftarrow> bits_write_byte dest bit_index 0xDE;
     (dest, bit_index) \<leftarrow> bits_write_byte dest bit_index 0xAA;
     (dest, bit_index) \<leftarrow> bits_write_byte dest bit_index 0xEB;
     (if s < SECTORS_PER_TRACK - 1
      then for_loop 0 16 write_sync_word (dest, bit_index)
      else bits_write_byte dest bit_index 0xFF)
   })"

text \<open>
  \<^verbatim>\<open>encode_bits_for_track(dest, src, track_number, sector_format)\<close> returns the bit count
  and leaves the track in \<^verbatim>\<open>dest\<close>; the model returns both.
\<close>

definition encode_bits_for_track ::
  "uint8 list \<Rightarrow> uint8 list \<Rightarrow> int \<Rightarrow> dsk_sector_format \<Rightarrow> (uint8 list \<times> nat) option" where
  "encode_bits_for_track dest src track_number sector_format = do {
     dest \<leftarrow> memset dest 0 BITS_TRACK_SIZE;
     (dest, bit_index) \<leftarrow>
        for_loop 0 TRACK_LEADER_SYNC_COUNT write_sync_word (dest, 0);
     (dest, bit_index) \<leftarrow>
        for_loop 0 SECTORS_PER_TRACK
          (encode_bits_for_sector src track_number sector_format) (dest, bit_index);
     Some (dest, bit_index)
   }"

section \<open>CRC-32\<close>

definition crc32_tab :: "uint32 list" where
  "crc32_tab =
    [
     0x00000000, 0x77073096, 0xee0e612c, 0x990951ba, 0x076dc419, 0x706af48f,
     0xe963a535, 0x9e6495a3, 0x0edb8832, 0x79dcb8a4, 0xe0d5e91e, 0x97d2d988,
     0x09b64c2b, 0x7eb17cbd, 0xe7b82d07, 0x90bf1d91, 0x1db71064, 0x6ab020f2,
     0xf3b97148, 0x84be41de, 0x1adad47d, 0x6ddde4eb, 0xf4d4b551, 0x83d385c7,
     0x136c9856, 0x646ba8c0, 0xfd62f97a, 0x8a65c9ec, 0x14015c4f, 0x63066cd9,
     0xfa0f3d63, 0x8d080df5, 0x3b6e20c8, 0x4c69105e, 0xd56041e4, 0xa2677172,
     0x3c03e4d1, 0x4b04d447, 0xd20d85fd, 0xa50ab56b, 0x35b5a8fa, 0x42b2986c,
     0xdbbbc9d6, 0xacbcf940, 0x32d86ce3, 0x45df5c75, 0xdcd60dcf, 0xabd13d59,
     0x26d930ac, 0x51de003a, 0xc8d75180, 0xbfd06116, 0x21b4f4b5, 0x56b3c423,
     0xcfba9599, 0xb8bda50f, 0x2802b89e, 0x5f058808, 0xc60cd9b2, 0xb10be924,
     0x2f6f7c87, 0x58684c11, 0xc1611dab, 0xb6662d3d, 0x76dc4190, 0x01db7106,
     0x98d220bc, 0xefd5102a, 0x71b18589, 0x06b6b51f, 0x9fbfe4a5, 0xe8b8d433,
     0x7807c9a2, 0x0f00f934, 0x9609a88e, 0xe10e9818, 0x7f6a0dbb, 0x086d3d2d,
     0x91646c97, 0xe6635c01, 0x6b6b51f4, 0x1c6c6162, 0x856530d8, 0xf262004e,
     0x6c0695ed, 0x1b01a57b, 0x8208f4c1, 0xf50fc457, 0x65b0d9c6, 0x12b7e950,
     0x8bbeb8ea, 0xfcb9887c, 0x62dd1ddf, 0x15da2d49, 0x8cd37cf3, 0xfbd44c65,
     0x4db26158, 0x3ab551ce, 0xa3bc0074, 0xd4bb30e2, 0x4adfa541, 0x3dd895d7,
     0xa4d1c46d, 0xd3d6f4fb, 0x4369e96a, 0x346ed9fc, 0xad678846, 0xda60b8d0,
     0x44042d73, 0x33031de5, 0xaa0a4c5f, 0xdd0d7cc9, 0x5005713c, 0x270241aa,
     0xbe0b1010, 0xc90c2086, 0x5768b525, 0x206f85b3, 0xb966d409, 0xce61e49f,
     0x5edef90e, 0x29d9c998, 0xb0d09822, 0xc7d7a8b4, 0x59b33d17, 0x2eb40d81,
     0xb7bd5c3b, 0xc0ba6cad, 0xedb88320, 0x9abfb3b6, 0x03b6e20c, 0x74b1d29a,
     0xead54739, 0x9dd277af, 0x04db2615, 0x73dc1683, 0xe3630b12, 0x94643b84,
     0x0d6d6a3e, 0x7a6a5aa8, 0xe40ecf0b, 0x9309ff9d, 0x0a00ae27, 0x7d079eb1,
     0xf00f9344, 0x8708a3d2, 0x1e01f268, 0x6906c2fe, 0xf762575d, 0x806567cb,
     0x196c3671, 0x6e6b06e7, 0xfed41b76, 0x89d32be0, 0x10da7a5a, 0x67dd4acc,
     0xf9b9df6f, 0x8ebeeff9, 0x17b7be43, 0x60b08ed5, 0xd6d6a3e8, 0xa1d1937e,
     0x38d8c2c4, 0x4fdff252, 0xd1bb67f1, 0xa6bc5767, 0x3fb506dd, 0x48b2364b,
     0xd80d2bda, 0xaf0a1b4c, 0x36034af6, 0x41047a60, 0xdf60efc3, 0xa867df55,
     0x316e8eef, 0x4669be79, 0xcb61b38c, 0xbc66831a, 0x256fd2a0, 0x5268e236,
     0xcc0c7795, 0xbb0b4703, 0x220216b9, 0x5505262f, 0xc5ba3bbe, 0xb2bd0b28,
     0x2bb45a92, 0x5cb36a04, 0xc2d7ffa7, 0xb5d0cf31, 0x2cd99e8b, 0x5bdeae1d,
     0x9b64c2b0, 0xec63f226, 0x756aa39c, 0x026d930a, 0x9c0906a9, 0xeb0e363f,
     0x72076785, 0x05005713, 0x95bf4a82, 0xe2b87a14, 0x7bb12bae, 0x0cb61b38,
     0x92d28e9b, 0xe5d5be0d, 0x7cdcefb7, 0x0bdbdf21, 0x86d3d2d4, 0xf1d4e242,
     0x68ddb3f8, 0x1fda836e, 0x81be16cd, 0xf6b9265b, 0x6fb077e1, 0x18b74777,
     0x88085ae6, 0xff0f6a70, 0x66063bca, 0x11010b5c, 0x8f659eff, 0xf862ae69,
     0x616bffd3, 0x166ccf45, 0xa00ae278, 0xd70dd2ee, 0x4e048354, 0x3903b3c2,
     0xa7672661, 0xd06016f7, 0x4969474d, 0x3e6e77db, 0xaed16a4a, 0xd9d65adc,
     0x40df0b66, 0x37d83bf0, 0xa9bcae53, 0xdebb9ec5, 0x47b2cf7f, 0x30b5ffe9,
     0xbdbdf21c, 0xcabac28a, 0x53b39330, 0x24b4a3a6, 0xbad03605, 0xcdd70693,
     0x54de5729, 0x23d967bf, 0xb3667a2e, 0xc4614ab8, 0x5d681b02, 0x2a6f2b94,
     0xb40bbe37, 0xc30c8ea1, 0x5a05df1b, 0x2d02ef8d]"

text \<open>
  The loop \<^verbatim>\<open>while (size--) crc = crc32_tab[(crc ^ *p++) & 0xFF] ^ (crc >> 8);\<close> with
  \<open>p\<close> the index of the next byte of \<^verbatim>\<open>buf\<close>.
\<close>

fun crc32_loop :: "uint32 \<Rightarrow> uint8 list \<Rightarrow> nat \<Rightarrow> nat \<Rightarrow> uint32 option" where
  "crc32_loop crc buf p 0 = Some crc"
| "crc32_loop crc buf p (Suc sz) = do {
     b \<leftarrow> array_get buf p;
     t \<leftarrow> array_get crc32_tab (unat ((crc XOR ucast b) AND 0xFF));
     crc32_loop (t XOR drop_bit 8 crc) buf (p + 1) sz
   }"

definition crc32 :: "uint32 \<Rightarrow> uint8 list \<Rightarrow> nat \<Rightarrow> uint32 option" where
  "crc32 crc buf sz = do {
     crc \<leftarrow> crc32_loop (crc XOR NOT 0) buf 0 sz;
     Some (crc XOR NOT 0)
   }"

section \<open>Chunks\<close>

text \<open>
  \<^verbatim>\<open>create_chunk\<close> allocates with \<^verbatim>\<open>calloc\<close>, so the payload starts as zeros. The
  allocation is taken to succeed; \<open>None\<close> stands for the \<^verbatim>\<open>NULL\<close> that the callers
  test for. The chunk names are the multi-character constants \<^verbatim>\<open>'INFO'\<close>, \<^verbatim>\<open>'TMAP'\<close>,
  \<^verbatim>\<open>'TRKS'\<close> and \<^verbatim>\<open>'WRIT'\<close>, whose value with GCC and Clang has the first character in
  the most significant byte.
\<close>

definition create_chunk :: "uint32 \<Rightarrow> nat \<Rightarrow> woz_chunk option" where
  "create_chunk nm len = Some \<lparr>name = nm, data_length = len, data = replicate len 0\<rparr>"

definition CREATOR_NAME :: "uint8 list" where
  "CREATOR_NAME = [0x64, 0x73, 0x6B, 0x32, 0x77, 0x6F, 0x7A, 0x32]"

definition create_info_chunk :: "woz_chunk option" where
  "create_info_chunk = do {
     chunk \<leftarrow> create_chunk 0x494E464F 60;
     d \<leftarrow> write_uint8 (data chunk) 0 2;
     d \<leftarrow> write_uint8 d 1 1;
     d \<leftarrow> write_uint8 d 2 0;
     d \<leftarrow> write_uint8 d 3 0;
     d \<leftarrow> write_uint8 d 4 1;
     d \<leftarrow> write_utf8 d 5 CREATOR_NAME 32;
     d \<leftarrow> write_uint8 d 37 1;
     d \<leftarrow> write_uint8 d 38 1;
     d \<leftarrow> write_uint8 d 39 32;
     d \<leftarrow> write_uint16 d 40 0;
     d \<leftarrow> write_uint16 d 42 0;
     d \<leftarrow> write_uint16 d 44 (of_nat BITS_BLOCKS_PER_TRACK);
     Some (chunk\<lparr>data := d\<rparr>)
   }"

text \<open>
  The loop body of \<^verbatim>\<open>create_tmap_chunk\<close> over the payload and \<^verbatim>\<open>byte_index\<close>. The
  \<^verbatim>\<open>switch (t % 4)\<close> is the chain of its cases in order; \<^verbatim>\<open>nominal_track\<close> is an
  \<^verbatim>\<open>int\<close> cut to a byte by the call.
\<close>

definition tmap_entry :: "nat \<Rightarrow> uint8 list \<times> nat \<Rightarrow> (uint8 list \<times> nat) option" where
  "tmap_entry t = (\<lambda>(d, byte_index).
     if t < (TRACKS_PER_DISK * 4) - 1 then
       (let nominal_track = t div 4 in
        if t mod 4 = 0 \<or> t mod 4 = 1 then do {
          d \<leftarrow> write_uint8 d byte_index (of_nat nominal_track);
          Some (d, byte_index + 1)
        } else if t mod 4 = 2 then do {
          d \<leftarrow> write_uint8 d byte_index 0xFF;
          Some (d, byte_index + 1)
        } else if t mod 4 = 3 then do {
          d \<leftarrow> write_uint8 d byte_index (of_nat (nominal_track + 1));
          Some (d, byte_index + 1)
        } else Some (d, byte_index))
     else do {
       d \<leftarrow> write_uint8 d byte_index 0xFF;
       Some (d, byte_index + 1)
     })"

definition create_tmap_chunk :: "woz_chunk option" where
  "create_tmap_chunk = do {
     chunk \<leftarrow> create_chunk 0x544D4150 160;
     (d, byte_index) \<leftarrow> for_loop 0 160 tmap_entry (data chunk, 0);
     Some (chunk\<lparr>data := d\<rparr>)
   }"

text \<open>
  The loop body of \<^verbatim>\<open>create_trks_chunk\<close> over the payload, \<^verbatim>\<open>byte_index\<close> and the
  16-bit \<^verbatim>\<open>starting_block\<close>.
\<close>

definition trks_entry ::
  "uint32 \<Rightarrow> nat \<Rightarrow> uint8 list \<times> nat \<times> uint16 \<Rightarrow> (uint8 list \<times> nat \<times> uint16) option" where
  "trks_entry valid_bits_per_track i = (\<lambda>(d, byte_index, starting_block). do {
     d \<leftarrow> write_uint16 d byte_index starting_block;
     let byte_index = byte_index + 2;
     d \<leftarrow> write_uint16 d byte_index (of_nat BITS_BLOCKS_PER_TRACK);
     let byte_index = byte_index + 2;
     d \<leftarrow> write_uint32 d byte_index valid_bits_per_track;
     let byte_index = byte_index + 4;
     Some (d, byte_index, starting_block + of_nat BITS_BLOCKS_PER_TRACK)
   })"

definition create_trks_chunk :: "uint8 list \<Rightarrow> uint32 \<Rightarrow> woz_chunk option" where
  "create_trks_chunk track_data valid_bits_per_track = do {
     chunk \<leftarrow> create_chunk 0x54524B53 ((160 * 8) + (TRACKS_PER_DISK * BITS_TRACK_SIZE));
     (d, byte_index, starting_block) \<leftarrow>
        for_loop 0 TRACKS_PER_DISK (trks_entry valid_bits_per_track) (data chunk, 0, 3);
     d \<leftarrow> memcpy d 1280 track_data (TRACKS_PER_DISK * BITS_TRACK_SIZE);
     Some (chunk\<lparr>data := d\<rparr>)
   }"

text \<open>
  The loop body of \<^verbatim>\<open>create_writ_chunk\<close>. \<^verbatim>\<open>(valid_bits_per_track + 7) / 8\<close> and
  \<^verbatim>\<open>valid_bits_per_track - track_leader_sync_bits\<close> are 32-bit unsigned arithmetic.
\<close>

definition writ_entry ::
  "uint8 list \<Rightarrow> uint32 \<Rightarrow> nat \<Rightarrow> uint8 list \<times> nat \<Rightarrow> (uint8 list \<times> nat) option" where
  "writ_entry track_data valid_bits_per_track t = (\<lambda>(d, byte_index). do {
     d \<leftarrow> write_uint8 d byte_index (of_nat (t * 4));
     let byte_index = byte_index + 1;
     d \<leftarrow> write_uint8 d byte_index 1;
     let byte_index = byte_index + 1;
     d \<leftarrow> write_uint8 d byte_index 0x00;
     let byte_index = byte_index + 1;
     let byte_index = byte_index + 1;
     let track_bits = drop (t * BITS_TRACK_SIZE) track_data;
     let length_for_crc = unat ((valid_bits_per_track + 7) div 8);
     crc \<leftarrow> crc32 0 track_bits length_for_crc;
     d \<leftarrow> write_uint32 d byte_index crc;
     let byte_index = byte_index + 4;
     let track_leader_sync_bits = of_nat (TRACK_LEADER_SYNC_COUNT * 10);
     d \<leftarrow> write_uint32 d byte_index track_leader_sync_bits;
     let byte_index = byte_index + 4;
     d \<leftarrow> write_uint32 d byte_index (valid_bits_per_track - track_leader_sync_bits);
     let byte_index = byte_index + 4;
     d \<leftarrow> write_uint8 d byte_index 0xFF;
     let byte_index = byte_index + 1;
     d \<leftarrow> write_uint8 d byte_index 10;
     let byte_index = byte_index + 1;
     d \<leftarrow> write_uint8 d byte_index 0;
     let byte_index = byte_index + 1;
     let byte_index = byte_index + 1;
     Some (d, byte_index)
   })"

definition create_writ_chunk :: "uint8 list \<Rightarrow> uint32 \<Rightarrow> woz_chunk option" where
  "create_writ_chunk track_data valid_bits_per_track = do {
     chunk \<leftarrow> create_chunk 0x57524954 (TRACKS_PER_DISK * 20);
     (d, byte_index) \<leftarrow>
        for_loop 0 TRACKS_PER_DISK (writ_entry track_data valid_bits_per_track) (data chunk, 0);
     Some (chunk\<lparr>data := d\<rparr>)
   }"

definition total_chunk_size :: "woz_chunk \<Rightarrow> nat" where
  "total_chunk_size chunk = 4 + 4 + data_length chunk"

text \<open>
  \<^verbatim>\<open>write_chunk(&dest[off], chunk)\<close> returns the number of bytes written; the model
  returns the updated buffer with it.
\<close>

definition write_chunk :: "uint8 list \<Rightarrow> nat \<Rightarrow> woz_chunk \<Rightarrow> (uint8 list \<times> nat) option" where
  "write_chunk dest off chunk = do {
     dest \<leftarrow> write_uint32_be dest off (name chunk);
     dest \<leftarrow> write_uint32 dest (off + 4) (of_nat (data_length chunk));
     dest \<leftarrow> memcpy dest (off + 8) (data chunk) (data_length chunk);
     Some (dest, 8 + data_length chunk)
   }"

section \<open>The converter\<close>

text \<open>
  The sector format that \<^verbatim>\<open>main\<close> takes from the input file's name.
\<close>

definition sector_format_of :: "string \<Rightarrow> dsk_sector_format" where
  "sector_format_of path =
     (if length path > 3 \<and> drop (length path - 3) path = ''.po''
      then dsk_sector_format_prodos else dsk_sector_format_dos_3_3)"

text \<open>
  \<^verbatim>\<open>main\<close> from the point where the input file is open to the buffer it hands to
  \<^verbatim>\<open>fwrite\<close>. \<open>file\<close> is the content of the input file, of which \<^verbatim>\<open>fread\<close> takes at
  most \<^verbatim>\<open>DSK_IMAGE_SIZE\<close> bytes; \<open>junk\<close> is what the uninitialised arrays
  \<^verbatim>\<open>track_data\<close> and \<^verbatim>\<open>woz\<close> hold before they are written. The result is \<open>Inl\<close> of the
  exit status when the program gives up, and \<open>Inr\<close> of the output image otherwise.
  \<open>encode_track\<close> is the body of the loop over the tracks, which encodes track \<open>t\<close> into
  \<^verbatim>\<open>&track_data[t * BITS_TRACK_SIZE]\<close> from \<^verbatim>\<open>&dsk[t * BYTES_PER_TRACK]\<close>.
  The failures of \<^verbatim>\<open>fopen\<close>, \<^verbatim>\<open>malloc\<close> and \<^verbatim>\<open>fwrite\<close> depend on the machine alone and
  are left out.
\<close>

definition encode_track ::
  "uint8 list \<Rightarrow> dsk_sector_format \<Rightarrow> nat \<Rightarrow> uint8 list \<times> nat \<Rightarrow> (uint8 list \<times> nat) option" where
  "encode_track dsk sector_format t = (\<lambda>(track_data, valid_bits_per_track). do {
     (dest, n) \<leftarrow>
       encode_bits_for_track (drop (t * BITS_TRACK_SIZE) track_data)
         (drop (t * BYTES_PER_TRACK) dsk) (int t) sector_format;
     Some (take (t * BITS_TRACK_SIZE) track_data @ dest, n)
   })"

definition woz_image :: "(nat \<Rightarrow> uint8) \<Rightarrow> uint8 list \<Rightarrow> dsk_sector_format \<Rightarrow> (int + uint8 list) option" where
  "woz_image junk file sector_format =
     (let dsk = take DSK_IMAGE_SIZE file;
          bytes_read = length dsk
      in if bytes_read \<noteq> DSK_IMAGE_SIZE then Some (Inl (- 2))
      else do {
        (track_data, valid_bits_per_track) \<leftarrow>
          for_loop 0 TRACKS_PER_DISK (encode_track dsk sector_format)
            (map junk [0..<TRACKS_PER_DISK * BITS_TRACK_SIZE], 0);
        (case (create_info_chunk, create_tmap_chunk,
               create_trks_chunk track_data (of_nat valid_bits_per_track),
               create_writ_chunk track_data (of_nat valid_bits_per_track)) of
           (Some info_chunk, Some tmap_chunk, Some trks_chunk, Some writ_chunk) \<Rightarrow> do {
             let woz_image_size = WOZ_HEADER_SIZE + total_chunk_size info_chunk
                   + total_chunk_size tmap_chunk + total_chunk_size trks_chunk
                   + total_chunk_size writ_chunk;
             let woz = map junk [0..<woz_image_size];
             woz \<leftarrow> write_uint32_be woz 0 0x574F5A32;
             woz \<leftarrow> array_set woz 4 0xFF;
             woz \<leftarrow> array_set woz 5 0x0A;
             woz \<leftarrow> array_set woz 6 0x0D;
             woz \<leftarrow> array_set woz 7 0x0A;
             let output_index = WOZ_HEADER_SIZE;
             (woz, n) \<leftarrow> write_chunk woz output_index info_chunk;
             let output_index = output_index + n;
             (woz, n) \<leftarrow> write_chunk woz output_index tmap_chunk;
             let output_index = output_index + n;
             (woz, n) \<leftarrow> write_chunk woz output_index trks_chunk;
             let output_index = output_index + n;
             (woz, n) \<leftarrow> write_chunk woz output_index writ_chunk;
             let output_index = output_index + n;
             crc \<leftarrow> crc32 0 (drop WOZ_HEADER_SIZE woz) (woz_image_size - WOZ_HEADER_SIZE);
             woz \<leftarrow> write_uint32 woz 8 crc;
             Some (Inr woz)
           }
         | _ \<Rightarrow> Some (Inl (- 2)))
      })"

definition dsk2woz2 :: "(nat \<Rightarrow> uint8) \<Rightarrow> string \<Rightarrow> uint8 list \<Rightarrow> (int + uint8 list) option" where
  "dsk2woz2 junk path file = woz_image junk file (sector_format_of path)"

section \<open>Notions the properties are stated with\<close>

text \<open>
  Bit \<open>k\<close> of a buffer, counted from the most significant bit of byte 0, which is the order
  in which the bit writer fills it.
\<close>

definition buffer_bit :: "uint8 list \<Rightarrow> nat \<Rightarrow> bool" where
  "buffer_bit buffer k = bit (buffer ! (k div 8)) (7 - k mod 8)"

text \<open>
  A step of the track encoder writes \<open>k\<close> bits when, from every bit index that leaves room
  for \<open>k\<close> bits in the buffer, it succeeds, keeps the length of the buffer and returns the
  index advanced by \<open>k\<close>.
\<close>

definition writes :: "nat \<Rightarrow> (uint8 list \<Rightarrow> nat \<Rightarrow> (uint8 list \<times> nat) option) \<Rightarrow> bool" where
  "writes k f \<longleftrightarrow>
     (\<forall>dest bit_index. bit_index + k \<le> 8 * length dest \<longrightarrow>
        (\<exists>dest'. f dest bit_index = Some (dest', bit_index + k) \<and> length dest' = length dest))"

text \<open>The 16-bit and 32-bit little-endian values stored at an offset of a buffer.\<close>

definition le16_at :: "uint8 list \<Rightarrow> nat \<Rightarrow> uint16" where
  "le16_at buf off = ucast (buf ! off) OR push_bit 8 (ucast (buf ! (off + 1)))"

definition le32_at :: "uint8 list \<Rightarrow> nat \<Rightarrow> uint32" where
  "le32_at buf off =
     ucast (buf ! off) OR push_bit 8 (ucast (buf ! (off + 1)))
       OR push_bit 16 (ucast (buf ! (off + 2))) OR push_bit 24 (ucast (buf ! (off + 3)))"

text \<open>
  The 6-and-2 algorithm in the words of the specification. The table of the 2-bit
  reversal:
\<close>

definition reverse2 :: "uint8 \<Rightarrow> uint8" where
  "reverse2 x = (if x = 0 then 0 else if x = 1 then 2 else if x = 2 then 1 else 3)"

text \<open>
  Pre-nibble byte \<open>c\<close>: for \<open>c\<close> in 0..83 the reversed low parts of the source bytes
  \<open>c\<close>, \<open>c + 86\<close> and \<open>c + 172\<close> in the bit fields 0-1, 2-3 and 4-5; for 84 and 85 only
  the first two fields (source offsets 84/170 and 85/171).
\<close>

definition pre_nibble :: "uint8 list \<Rightarrow> nat \<Rightarrow> uint8" where
  "pre_nibble src c =
     (if c < 84
      then reverse2 (src ! c AND 3) OR push_bit 2 (reverse2 (src ! (c + 86) AND 3))
             OR push_bit 4 (reverse2 (src ! (c + 172) AND 3))
      else reverse2 (src ! c AND 3) OR push_bit 2 (reverse2 (src ! (c + 86) AND 3)))"

text \<open>
  The 343 six-bit values before the XOR chain: the 86 pre-nibble bytes, the 256 high parts
  \<^verbatim>\<open>src[c] >> 2\<close>, and byte 342 as a duplicate of byte 341.
\<close>

definition six_bit_values :: "uint8 list \<Rightarrow> uint8 list" where
  "six_bit_values src =
     (let xs = map (pre_nibble src) [0..<86] @ map (drop_bit 2) src in xs @ [xs ! 341])"

text \<open>
  The XOR chain: every byte with an index from \<open>hi\<close> down to 1 is XORed with its original
  predecessor. The specification gives \<open>hi = 342\<close>.
\<close>

definition xor_with_predecessors :: "nat \<Rightarrow> uint8 list \<Rightarrow> uint8 list" where
  "xor_with_predecessors hi xs =
     map (\<lambda>i. if 1 \<le> i \<and> i \<le> hi then xs ! i XOR xs ! (i - 1) else xs ! i) [0..<length xs]"

definition reference_6_and_2 :: "nat \<Rightarrow> uint8 list \<Rightarrow> uint8 list" where
  "reference_6_and_2 hi src =
     map (\<lambda>b. six_and_two_mapping ! unat b) (xor_with_predecessors hi (six_bit_values src))"

text \<open>
  The TMAP rule for quarter-track \<open>t\<close>: unused from 139 on and at every half track,
  the next track at the three-quarter positions, and the track itself otherwise.
\<close>

definition tmap_rule :: "nat \<Rightarrow> uint8" where
  "tmap_rule t =
     (if t \<ge> 139 \<or> t mod 4 = 2 then 0xFF
      else if t mod 4 = 3 then of_nat (t div 4 + 1)
      else of_nat (t div 4))"

text \<open>
  The 20 bytes at an offset of a WRIT payload are the descriptor of track \<open>t\<close> with the
  checksum \<open>crc\<close> and the valid bit count \<open>vb\<close>: the track to write \<open>t * 4\<close>, the command
  count 1, the flags 0, a reserved zero byte, the little-endian checksum, the 640 leader
  bits to skip, the bit count \<open>vb - 640\<close> (32-bit unsigned), the leader nibble \<open>0xFF\<close>, its
  bit count 10, the leader count 0 and a zero padding byte.
\<close>

definition writ_descriptor_at :: "uint8 list \<Rightarrow> nat \<Rightarrow> nat \<Rightarrow> uint32 \<Rightarrow> uint32 \<Rightarrow> bool" where
  "writ_descriptor_at d off t crc vb \<longleftrightarrow>
     d ! off = of_nat (t * 4) \<and> d ! (off + 1) = 1 \<and> d ! (off + 2) = 0 \<and> d ! (off + 3) = 0
     \<and> le32_at d (off + 4) = crc \<and> le32_at d (off + 8) = 640 \<and> le32_at d (off + 12) = vb - 640
     \<and> d ! (off + 16) = 0xFF \<and> d ! (off + 17) = 10 \<and> d ! (off + 18) = 0 \<and> d ! (off + 19) = 0"

text \<open>
  CRC-32 in the words of the specification: the reflected polynomial \<open>0xEDB88320\<close>, taken
  one bit at a time, with the accumulator inverted before the first byte and after the
  last.
\<close>

definition crc32_shift :: "uint32 \<Rightarrow> uint32" where
  "crc32_shift c = (if bit c 0 then drop_bit 1 c XOR 0xEDB88320 else drop_bit 1 c)"

definition crc32_bitwise :: "uint8 list \<Rightarrow> uint32" where
  "crc32_bitwise bytes = NOT (fold (\<lambda>b c. (crc32_shift ^^ 8) (c XOR ucast b)) bytes (NOT 0))"

section \<open>Properties\<close>

subsection \<open>Loops\<close>

lemma for_loop_unfold:
  "for_loop i n body s = (if i < n then Option.bind (body i s) (for_loop (i + 1) n body) else Some s)"
  by (subst for_loop.simps) (simp split: option.splits)

lemma for_loop_invariant:
  assumes "I i s" and "i \<le> n"
    and step: "\<And>j s. i \<le> j \<Longrightarrow> j < n \<Longrightarrow> I j s \<Longrightarrow> \<exists>s'. body j s = Some s' \<and> I (j + 1) s'"
  shows "\<exists>s'. for_loop i n body s = Some s' \<and> I n s'"
  using assms
proof (induction "n - i" arbitrary: i s)
  case 0
  then show ?case by (simp add: for_loop_unfold)
next
  case (Suc d)
  then have lt: "i < n" by simp
  from Suc.prems(3)[OF le_refl lt Suc.prems(1)]
  obtain s1 where s1: "body i s = Some s1" "I (i + 1) s1" by blast
  have "\<exists>s'. for_loop (i + 1) n body s1 = Some s' \<and> I n s'"
  proof (rule Suc.hyps(1))
    show "d = n - (i + 1)" using Suc.hyps(2) by simp
    show "I (i + 1) s1" by (rule s1)
    show "i + 1 \<le> n" using lt by simp
    show "\<And>j s. i + 1 \<le> j \<Longrightarrow> j < n \<Longrightarrow> I j s \<Longrightarrow> \<exists>s'. body j s = Some s' \<and> I (j + 1) s'"
      using Suc.prems(3) by simp
  qed
  then show ?case using lt s1 by (subst for_loop_unfold) simp
qed

subsection \<open>Sector interleave\<close>

lemma upt16: "[0..<16] = [0,1,2,3,4,5,6,7,8,9,10,11,12,13,14,15::nat]"
  by code_simp

text \<open>
  C2: for either sector format the map from physical to logical sectors is a bijection of
  \<open>{0..15}\<close> onto itself: no two physical sectors share a logical sector and every logical
  sector is used.
\<close>

theorem logical_sector_bijection: "bij_betw (logical_sector sector_format) {0..15} {0..15}"
proof -
  have s: "{0..15::nat} = set [0..<16]" by auto
  show ?thesis
    unfolding s upt16 bij_betw_def
    by (cases sector_format) (auto simp add: logical_sector_def)
qed

subsection \<open>The bit writer\<close>

lemma and_7_eq_mod_8: "(index::nat) AND 7 = index mod 8"
  using take_bit_eq_mask[of 3 index] by (simp add: take_bit_eq_mod mask_eq_exp_minus_1)

lemma small_bit: "0 \<le> (v::int) \<Longrightarrow> v \<le> 255 \<Longrightarrow> bit v n \<Longrightarrow> n < 8"
proof -
  assume a: "0 \<le> v" "v \<le> 255" "bit v n"
  have "take_bit 8 v = v" using a by (simp add: take_bit_int_eq_self)
  then have "bit (take_bit 8 v) n" using a by simp
  then show ?thesis by (simp add: bit_take_bit_iff)
qed

lemma bits_write_byte_aligned:
  assumes "index mod 8 = 0" "index div 8 < length buffer"
  shows "bits_write_byte buffer index val =
    Some (buffer[index div 8 := buffer ! (index div 8) OR word_of_int val], index + 8)"
  using assms by (simp add: bits_write_byte_def and_7_eq_mod_8 drop_bit_eq_div array_get_def array_set_def
    of_int_or_eq Let_def)

lemma bits_write_byte_unaligned:
  assumes "index mod 8 \<noteq> 0" "index div 8 + 1 < length buffer"
  shows "bits_write_byte buffer index val =
    Some (buffer[index div 8 := buffer ! (index div 8) OR word_of_int (drop_bit (index mod 8) val),
                 index div 8 + 1 := buffer ! (index div 8 + 1) OR word_of_int (push_bit (8 - index mod 8) val)], index + 8)"
  using assms by (simp add: bits_write_byte_def and_7_eq_mod_8 drop_bit_eq_div array_get_def array_set_def
    Let_def of_int_or_eq)

lemma or_and_absorb: "((a::uint8) OR b) AND a = a"
  by (auto simp: bit_eq_iff bit_and_iff bit_or_iff)

text \<open>
  Where bit \<open>k\<close> lies relative to the eight bits written at \<open>index\<close>, by the byte that
  holds it. Each fact is first shown for a quotient and a remainder given apart, which
  keeps \<open>div\<close> and \<open>mod\<close> out of the arithmetic.
\<close>

lemma aligned_same_byte_gen: "ir = 0 \<Longrightarrow> kq = iq \<Longrightarrow> kr < 8 \<Longrightarrow> (8 * iq + ir::nat) \<le> 8 * kq + kr \<and> 8 * kq + kr < 8 * iq + ir + 8 \<and> 8 * kq + kr - (8 * iq + ir) = kr"
  by linarith

lemma aligned_same_byte: "index mod 8 = 0 \<Longrightarrow> k div 8 = index div 8 \<Longrightarrow> (index::nat) \<le> k \<and> k < index + 8 \<and> k - index = k mod 8"
  using aligned_same_byte_gen[of "index mod 8" "k div 8" "index div 8" "k mod 8", unfolded mult_div_mod_eq] by simp

lemma aligned_other_byte_gen: "ir = 0 \<Longrightarrow> kq \<noteq> iq \<Longrightarrow> kr < 8 \<Longrightarrow> \<not> ((8 * iq + ir::nat) \<le> 8 * kq + kr \<and> 8 * kq + kr < 8 * iq + ir + 8)"
  by linarith

lemma aligned_other_byte: "index mod 8 = 0 \<Longrightarrow> k div 8 \<noteq> index div 8 \<Longrightarrow> \<not> ((index::nat) \<le> k \<and> k < index + 8)"
  using aligned_other_byte_gen[of "index mod 8" "k div 8" "index div 8" "k mod 8", unfolded mult_div_mod_eq] by simp

lemma unaligned_first_byte_gen: "kq = iq \<Longrightarrow> kr < 8 \<Longrightarrow> ir < 8 \<Longrightarrow> 8 * kq + kr < (8 * iq + ir::nat) + 8 \<and> (8 * iq + ir \<le> 8 * kq + kr \<longleftrightarrow> ir \<le> kr)
   \<and> (ir \<le> kr \<longrightarrow> 7 - (8 * kq + kr - (8 * iq + ir)) = 7 - kr + ir)"
  by auto

lemma unaligned_first_byte: "k div 8 = index div 8 \<Longrightarrow> k < (index::nat) + 8 \<and> (index \<le> k \<longleftrightarrow> index mod 8 \<le> k mod 8)
   \<and> (index mod 8 \<le> k mod 8 \<longrightarrow> 7 - (k - index) = 7 - k mod 8 + index mod 8)"
  by (rule unaligned_first_byte_gen[of "k div 8" "index div 8" "k mod 8" "index mod 8", unfolded mult_div_mod_eq]) simp_all

lemma unaligned_second_byte_gen: "kq = iq + 1 \<Longrightarrow> kr < 8 \<Longrightarrow> ir < 8 \<Longrightarrow> (8 * iq + ir::nat) \<le> 8 * kq + kr \<and> (8 * kq + kr < 8 * iq + ir + 8 \<longleftrightarrow> kr < ir)
   \<and> (kr < ir \<longrightarrow> 7 - (8 * kq + kr - (8 * iq + ir)) = 7 - kr - (8 - ir))"
  by auto

lemma unaligned_second_byte: "k div 8 = index div 8 + 1 \<Longrightarrow> (index::nat) \<le> k \<and> (k < index + 8 \<longleftrightarrow> k mod 8 < index mod 8)
   \<and> (k mod 8 < index mod 8 \<longrightarrow> 7 - (k - index) = 7 - k mod 8 - (8 - index mod 8))"
  by (rule unaligned_second_byte_gen[of "k div 8" "index div 8" "k mod 8" "index mod 8", unfolded mult_div_mod_eq]) simp_all

lemma unaligned_other_byte_gen: "kq \<noteq> iq \<Longrightarrow> kq \<noteq> iq + 1 \<Longrightarrow> kr < 8 \<Longrightarrow> ir < 8 \<Longrightarrow> \<not> ((8 * iq + ir::nat) \<le> 8 * kq + kr \<and> 8 * kq + kr < 8 * iq + ir + 8)"
  by linarith

lemma unaligned_other_byte: "k div 8 \<noteq> index div 8 \<Longrightarrow> k div 8 \<noteq> index div 8 + 1 \<Longrightarrow> \<not> ((index::nat) \<le> k \<and> k < index + 8)"
  using unaligned_other_byte_gen[of "k div 8" "index div 8" "k mod 8" "index mod 8", unfolded mult_div_mod_eq] by simp

lemma unaligned_room_gen: "8 * iq + ir + 8 \<le> 8 * (n::nat) \<Longrightarrow> ir \<noteq> 0 \<Longrightarrow> iq + 1 < n"
  by linarith

lemma unaligned_room: "index + 8 \<le> 8 * (n::nat) \<Longrightarrow> index mod 8 \<noteq> 0 \<Longrightarrow> index div 8 + 1 < n"
  using unaligned_room_gen[of "index div 8" "index mod 8" n, unfolded mult_div_mod_eq] by simp
lemma seven_minus_less: "7 - (n::nat) < 8"
  by simp

text \<open>
  C10: when the eight bits starting at \<open>index\<close> lie inside the buffer and the value is an
  8-bit one, \<^verbatim>\<open>bits_write_byte\<close> succeeds and returns \<open>index + 8\<close>; the buffer keeps its
  length; every byte other than the one at \<open>index div 8\<close> and, for an unaligned index, the
  one after it is unchanged; no bit that was set is cleared; and bit \<open>k\<close> of the buffer is set
  afterwards exactly when it was set before or \<open>k\<close> lies in \<open>index ..< index + 8\<close> and the
  matching bit of the value (most significant first) is set.
\<close>

theorem bits_write_byte_frame:
  assumes cap: "index + 8 \<le> 8 * length buffer" and v: "0 \<le> val" "val \<le> 255"
  shows "\<exists>buffer'. bits_write_byte buffer index val = Some (buffer', index + 8)
    \<and> length buffer' = length buffer
    \<and> (\<forall>i < length buffer. i \<noteq> index div 8 \<and> (i \<noteq> index div 8 + 1 \<or> index mod 8 = 0)
          \<longrightarrow> buffer' ! i = buffer ! i)
    \<and> (\<forall>i < length buffer. buffer' ! i AND buffer ! i = buffer ! i)
    \<and> (\<forall>k < 8 * length buffer. buffer_bit buffer' k \<longleftrightarrow>
          buffer_bit buffer k \<or> (index \<le> k \<and> k < index + 8 \<and> bit val (7 - (k - index))))"
proof (cases "index mod 8 = 0")
  case True
  have bp: "index div 8 < length buffer" using cap by simp
  let ?b = "buffer[index div 8 := buffer ! (index div 8) OR word_of_int val]"
  have r: "bits_write_byte buffer index val = Some (?b, index + 8)"
    using True bp by (rule bits_write_byte_aligned)
  have frame: "\<forall>i < length buffer. i \<noteq> index div 8 \<longrightarrow> ?b ! i = buffer ! i"
    by simp
  have keep: "\<forall>i < length buffer. ?b ! i AND buffer ! i = buffer ! i"
    using bp by (simp add: nth_list_update or_and_absorb)
  have bits: "\<forall>k < 8 * length buffer. buffer_bit ?b k \<longleftrightarrow>
          buffer_bit buffer k \<or> (index \<le> k \<and> k < index + 8 \<and> bit val (7 - (k - index)))"
  proof (intro allI impI)
    fix k assume k: "k < 8 * length buffer"
    show "buffer_bit ?b k \<longleftrightarrow>
          buffer_bit buffer k \<or> (index \<le> k \<and> k < index + 8 \<and> bit val (7 - (k - index)))"
    proof (cases "k div 8 = index div 8")
      case same: True
      note k1 = aligned_same_byte[OF True same]
      have "buffer_bit ?b k \<longleftrightarrow> buffer_bit buffer k \<or> bit val (7 - k mod 8)"
        using same bp by (simp add: seven_minus_less buffer_bit_def bit_or_iff bit_word_of_int_iff)
      then show ?thesis using k1 by simp
    next
      case False
      note n = aligned_other_byte[OF True False]
      have "buffer_bit ?b k \<longleftrightarrow> buffer_bit buffer k"
        using False by (simp add: buffer_bit_def)
      then show ?thesis using n by blast
    qed
  qed
  show ?thesis using r frame keep bits by (intro exI[of _ ?b]) simp
next
  case False
  have bp: "index div 8 + 1 < length buffer" using cap False by (rule unaligned_room)
  let ?s = "index mod 8"
  let ?b = "buffer[index div 8 := buffer ! (index div 8) OR word_of_int (drop_bit ?s val),
                 index div 8 + 1 := buffer ! (index div 8 + 1) OR word_of_int (push_bit (8 - ?s) val)]"
  have r: "bits_write_byte buffer index val = Some (?b, index + 8)"
    using False bp by (rule bits_write_byte_unaligned)
  have frame: "\<forall>i < length buffer. i \<noteq> index div 8 \<and> i \<noteq> index div 8 + 1 \<longrightarrow> ?b ! i = buffer ! i"
    by simp
  have keep: "\<forall>i < length buffer. ?b ! i AND buffer ! i = buffer ! i"
    using bp by (simp add: nth_list_update or_and_absorb)
  have bits: "\<forall>k < 8 * length buffer. buffer_bit ?b k \<longleftrightarrow>
          buffer_bit buffer k \<or> (index \<le> k \<and> k < index + 8 \<and> bit val (7 - (k - index)))"
  proof (intro allI impI)
    fix k assume k: "k < 8 * length buffer"
    consider (a) "k div 8 = index div 8" | (b) "k div 8 = index div 8 + 1"
      | (c) "k div 8 \<noteq> index div 8" "k div 8 \<noteq> index div 8 + 1" by blast
    then show "buffer_bit ?b k \<longleftrightarrow>
          buffer_bit buffer k \<or> (index \<le> k \<and> k < index + 8 \<and> bit val (7 - (k - index)))"
    proof cases
      case a
      note f = unaligned_first_byte[OF a]
      have big: "\<not> ?s \<le> k mod 8 \<Longrightarrow> \<not> bit val (?s + (7 - k mod 8))"
        using small_bit[OF v, of "?s + (7 - k mod 8)"] by linarith
      have "buffer_bit ?b k \<longleftrightarrow> buffer_bit buffer k \<or> bit val (?s + (7 - k mod 8))"
        using a bp by (simp add: seven_minus_less buffer_bit_def bit_or_iff bit_word_of_int_iff bit_drop_bit_eq)
      then show ?thesis using f big by (cases "?s \<le> k mod 8") (simp_all add: add.commute)
    next
      case b
      note f = unaligned_second_byte[OF b]
      have e2: "k mod 8 < ?s \<longleftrightarrow> 8 - ?s \<le> 7 - k mod 8" by linarith
      have "buffer_bit ?b k \<longleftrightarrow> buffer_bit buffer k \<or>
          (8 - ?s \<le> 7 - k mod 8 \<and> bit val (7 - k mod 8 - (8 - ?s)))"
        using b bp by (simp add: seven_minus_less buffer_bit_def bit_or_iff bit_word_of_int_iff bit_push_bit_iff)
      then show ?thesis using f e2 by (cases "k mod 8 < ?s") simp_all
    next
      case c
      note n = unaligned_other_byte[OF c]
      have "buffer_bit ?b k \<longleftrightarrow> buffer_bit buffer k"
        using c by (simp add: buffer_bit_def)
      then show ?thesis using n by blast
    qed
  qed
  show ?thesis using r frame keep bits False by (intro exI[of _ ?b]) simp
qed

theorem bits_write_byte_frame_witness:
  "bits_write_byte [0, 0] 3 0xD5 = Some ([0x1A, 0xA0], 11)
   \<and> buffer_bit [0x1A, 0xA0] 3 \<and> \<not> buffer_bit [0x1A, 0xA0] 2 \<and> \<not> buffer_bit [0x1A, 0xA0] 11"
proof -
  have h: "3 + 8 \<le> 8 * length [0, 0::uint8]" "(0::int) \<le> 0xD5" "(0xD5::int) \<le> 255"
    by simp_all
  from bits_write_byte_frame[OF h]
  obtain b where b: "bits_write_byte [0, 0] 3 0xD5 = Some (b, 3 + 8)" by blast
  have e: "bits_write_byte [0, 0] 3 0xD5 = Some ([0x1A, 0xA0], 11)"
    by code_simp
  have f: "buffer_bit [0x1A, 0xA0] 3 \<and> \<not> buffer_bit [0x1A, 0xA0] 2 \<and> \<not> buffer_bit [0x1A, 0xA0] 11"
    by code_simp
  show ?thesis using b e f by simp
qed

subsection \<open>6-and-2 encoding\<close>

lemma unat_and3: "unat ((b::uint8) AND 3) < 4"
proof -
  have "unat (b AND 3) \<le> unat (3 :: uint8)"
    by (rule word_and_le1 [THEN word_le_nat_alt [THEN iffD1]])
  then show ?thesis by simp
qed

lemma and3_cases: "(b::uint8) AND 3 = 0 \<or> b AND 3 = 1 \<or> b AND 3 = 2 \<or> b AND 3 = 3"
proof -
  have "unat (b AND 3) < 4" by (rule unat_and3)
  then have "unat (b AND 3) = 0 \<or> unat (b AND 3) = 1 \<or> unat (b AND 3) = 2 \<or> unat (b AND 3) = 3"
    by linarith
  then show ?thesis by (auto simp: word_unat_eq_iff)
qed

lemma bit_reverse_reverse2: "bit_reverse ! unat ((b::uint8) AND 3) = reverse2 (b AND 3)"
  using and3_cases[of b] by (auto simp: bit_reverse_def reverse2_def)

lemma low_bits_Some: "c < length src \<Longrightarrow> low_bits src c = Some (reverse2 (src ! c AND 3))"
  using unat_and3[of "src ! c"] by (simp add: low_bits_def array_get_def bit_reverse_reverse2) (simp add: bit_reverse_def)


lemma pack_low_bits_Some:
  assumes "c < 84" "256 \<le> length src" "c < length dest"
  shows "pack_low_bits src c dest = Some (dest[c := pre_nibble src c])"
  using assms by (simp add: pack_low_bits_def low_bits_Some array_set_def pre_nibble_def)

lemma fill_low:
  assumes "length dest = 343" "256 \<le> length src"
  shows "\<exists>d. for_loop 0 84 (pack_low_bits src) dest = Some d \<and> length d = 343
           \<and> (\<forall>k<84. d ! k = pre_nibble src k)"
proof -
  let ?I = "\<lambda>c d. length d = 343 \<and> (\<forall>k<c. d ! k = pre_nibble src k)"
  have "\<exists>d. for_loop 0 84 (pack_low_bits src) dest = Some d \<and> ?I 84 d"
  proof (rule for_loop_invariant[where I = ?I])
    show "?I 0 dest" using assms by simp
    show "(0::nat) \<le> 84" by simp
    fix j d assume j: "j < 84" and inv: "?I j d"
    have "pack_low_bits src j d = Some (d[j := pre_nibble src j])"
      using j inv assms by (intro pack_low_bits_Some) simp_all
    moreover have "?I (j + 1) (d[j := pre_nibble src j])"
      using inv j by (auto simp: nth_list_update less_Suc_eq)
    ultimately show "\<exists>s'. pack_low_bits src j d = Some s' \<and> ?I (j + 1) s'" by blast
  qed
  then show ?thesis by blast
qed

lemma copy_high_bits_Some:
  assumes "c < 256" "256 \<le> length src" "length dest = 343"
  shows "copy_high_bits src c dest = Some (dest[86 + c := drop_bit 2 (src ! c)])"
  using assms by (simp add: copy_high_bits_def array_get_def array_set_def)

lemma fill_high:
  assumes "length dest = 343" "256 \<le> length src"
  shows "\<exists>d. for_loop 0 256 (copy_high_bits src) dest = Some d \<and> length d = 343
           \<and> (\<forall>k<86. d ! k = dest ! k) \<and> (\<forall>k<256. d ! (86 + k) = drop_bit 2 (src ! k))"
proof -
  let ?I = "\<lambda>c d. length d = 343 \<and> (\<forall>k<86. d ! k = dest ! k)
      \<and> (\<forall>k<c. d ! (86 + k) = drop_bit 2 (src ! k))"
  have "\<exists>d. for_loop 0 256 (copy_high_bits src) dest = Some d \<and> ?I 256 d"
  proof (rule for_loop_invariant[where I = ?I])
    show "?I 0 dest" using assms by simp
    show "(0::nat) \<le> 256" by simp
    fix j d assume j: "j < 256" and inv: "?I j d"
    have "copy_high_bits src j d = Some (d[86 + j := drop_bit 2 (src ! j)])"
      using j inv assms by (intro copy_high_bits_Some) simp_all
    moreover have "?I (j + 1) (d[86 + j := drop_bit 2 (src ! j)])"
      using inv j by (auto simp: nth_list_update less_Suc_eq)
    ultimately show "\<exists>s'. copy_high_bits src j d = Some s' \<and> ?I (j + 1) s'" by blast
  qed
  then show ?thesis by blast
qed

lemma six_bit_values_length: "length src = 256 \<Longrightarrow> length (six_bit_values src) = 343"
  by (simp add: six_bit_values_def Let_def)

lemma six_bit_values_nth:
  assumes "length src = 256" "k < 343"
  shows "six_bit_values src ! k =
    (if k < 86 then pre_nibble src k else if k < 342 then drop_bit 2 (src ! (k - 86))
     else drop_bit 2 (src ! 255))"
  using assms by (auto simp: six_bit_values_def Let_def nth_append)

lemma encode_6_and_2_fill_eq:
  assumes "length dest = 343" "256 \<le> length src"
  shows "encode_6_and_2_fill dest src = Some (six_bit_values (take 256 src))"
proof -
  obtain d1 where d1: "for_loop 0 84 (pack_low_bits src) dest = Some d1" "length d1 = 343"
      "\<forall>k<84. d1 ! k = pre_nibble src k"
    using fill_low[OF assms] by blast
  let ?d2 = "d1[84 := pre_nibble src 84]"
  let ?d3 = "?d2[85 := pre_nibble src 85]"
  obtain d4 where d4: "for_loop 0 256 (copy_high_bits src) ?d3 = Some d4" "length d4 = 343"
      "\<forall>k<86. d4 ! k = ?d3 ! k" "\<forall>k<256. d4 ! (86 + k) = drop_bit 2 (src ! k)"
    using fill_high[of ?d3 src] d1(2) assms(2) by auto
  let ?d5 = "d4[342 := d4 ! 341]"
  have run: "encode_6_and_2_fill dest src = Some ?d5"
    using d1 d4 assms
    by (simp add: encode_6_and_2_fill_def low_bits_Some array_set_def array_get_def pre_nibble_def)
  have low: "\<forall>k<86. d4 ! k = pre_nibble src k"
  proof (intro allI impI)
    fix k :: nat assume "k < 86"
    then consider "k < 84" | "k = 84" | "k = 85" by linarith
    then show "d4 ! k = pre_nibble src k"
      using d4(3) d1(2,3) by cases simp_all
  qed
  have pn: "\<forall>k<86. pre_nibble (take 256 src) k = pre_nibble src k"
    by (simp add: pre_nibble_def)
  have "?d5 = six_bit_values (take 256 src)"
  proof (rule nth_equalityI)
    show "length ?d5 = length (six_bit_values (take 256 src))"
      using d4(2) assms by (simp add: six_bit_values_length)
    fix k assume "k < length ?d5"
    then have k: "k < 343" using d4(2) by simp
    consider "k < 86" | "86 \<le> k" "k < 342" | "k = 342" using k by linarith
    then show "?d5 ! k = six_bit_values (take 256 src) ! k"
    proof cases
      case 1
      then show ?thesis using low pn d4(2) assms by (simp add: six_bit_values_nth)
    next
      case 2
      have "86 + (k - 86) = k" "k - 86 < 256" using 2 by simp_all
      then have "d4 ! k = drop_bit 2 (src ! (k - 86))" using d4(4)[rule_format, of "k - 86"] by simp
      then show ?thesis using 2 d4(2) assms by (simp add: six_bit_values_nth)
    next
      case 3
      have "d4 ! 341 = drop_bit 2 (src ! 255)" using d4(4)[rule_format, of 255] by simp
      then show ?thesis using 3 d4(2) assms by (simp add: six_bit_values_nth)
    qed
  qed
  then show ?thesis using run by simp
qed

lemma xor_chain_result:
  "l \<le> length d \<Longrightarrow> xor_chain l d =
     Some (map (\<lambda>i. if 0 < i \<and> i < l then d ! i XOR d ! (i - Suc 0) else d ! i) [0..<length d])"
proof (induction l arbitrary: d)
  case 0
  show ?case by (subst xor_chain.simps) (simp add: map_nth)
next
  case (Suc l)
  show ?case
  proof (cases "l = 0")
    case True
    then show ?thesis by (subst xor_chain.simps) (auto intro!: nth_equalityI)
  next
    case False
    let ?d1 = "d[l := d ! l XOR d ! (l - Suc 0)]"
    have l: "l < length d" using Suc.prems by simp
    have ih: "xor_chain l ?d1 =
      Some (map (\<lambda>i. if 0 < i \<and> i < l then ?d1 ! i XOR ?d1 ! (i - Suc 0) else ?d1 ! i) [0..<length ?d1])"
      using l by (intro Suc.IH) simp
    have l1: "l - Suc 0 < length d" using l by simp
    have step: "xor_chain (Suc l) d = xor_chain l ?d1"
      using False l l1 by (subst xor_chain.simps) (simp add: array_get_def array_set_def)
    have pt: "(if 0 < i \<and> i < l then ?d1 ! i XOR ?d1 ! (i - Suc 0) else ?d1 ! i)
        = (if 0 < i \<and> i < Suc l then d ! i XOR d ! (i - Suc 0) else d ! i)" if "i < length d" for i
      using l False that by (auto simp: nth_list_update less_Suc_eq)
    have "map (\<lambda>i. if 0 < i \<and> i < l then ?d1 ! i XOR ?d1 ! (i - Suc 0) else ?d1 ! i) [0..<length ?d1]
        = map (\<lambda>i. if 0 < i \<and> i < Suc l then d ! i XOR d ! (i - Suc 0) else d ! i) [0..<length d]"
      by (rule map_cong) (simp_all only: length_list_update pt atLeastLessThan_iff set_upt)
    then show ?thesis using step ih by simp
  qed
qed

lemma xor_chain_342:
  "length d = 343 \<Longrightarrow> xor_chain 342 d = Some (xor_with_predecessors 341 d)"
proof -
  assume len: "length d = 343"
  have "(\<lambda>i::nat. if 0 < i \<and> i < 342 then d ! i XOR d ! (i - Suc 0) else d ! i)
      = (\<lambda>i. if 1 \<le> i \<and> i \<le> 341 then d ! i XOR d ! (i - 1) else d ! i)"
    by (rule ext) auto
  then show ?thesis using xor_chain_result[of 342 d] len
    by (simp add: xor_with_predecessors_def)
qed

lemma encode_6_and_2_chained_eq:
  assumes "length dest = 343" "256 \<le> length src"
  shows "encode_6_and_2_chained dest src
    = Some (xor_with_predecessors 341 (six_bit_values (take 256 src)))"
  using assms
  by (simp add: encode_6_and_2_chained_def encode_6_and_2_fill_eq xor_chain_342 six_bit_values_length)

lemma unat_lt_64_iff: "unat (b::uint8) < 64 \<longleftrightarrow> take_bit 6 b = b"
proof -
  have "take_bit 6 b = b \<longleftrightarrow> take_bit 6 (unat b) = unat b"
    by (simp add: word_unat_eq_iff unsigned_take_bit_eq)
  also have "\<dots> \<longleftrightarrow> unat b < 2 ^ 6" by (rule take_bit_nat_eq_self_iff)
  finally show ?thesis by simp
qed

lemma reverse2_bits: "take_bit 2 (reverse2 x) = reverse2 x"
  by (simp add: reverse2_def)

lemma reverse2_take: "take_bit 4 (reverse2 x) = reverse2 x" "take_bit 6 (reverse2 x) = reverse2 x"
  by (simp_all add: reverse2_def)

lemma pre_nibble_six_bits: "take_bit 6 (pre_nibble src c) = pre_nibble src c"
  by (simp add: pre_nibble_def take_bit_push_bit reverse2_take reverse2_bits)

lemma high_part_six_bits: "take_bit 6 (drop_bit 2 (b::uint8)) = drop_bit 2 b"
  by (simp add: take_bit_drop_bit take_bit_word_eq_self)

lemma six_bit_values_bound:
  assumes "length src = 256" "k < 343"
  shows "take_bit 6 (six_bit_values src ! k) = six_bit_values src ! k"
  using assms by (simp add: six_bit_values_nth pre_nibble_six_bits high_part_six_bits)

lemma xor_with_predecessors_length: "length (xor_with_predecessors hi xs) = length xs"
  by (simp add: xor_with_predecessors_def)

lemma xor_with_predecessors_nth:
  "k < length xs \<Longrightarrow> xor_with_predecessors hi xs ! k =
     (if 1 \<le> k \<and> k \<le> hi then xs ! k XOR xs ! (k - 1) else xs ! k)"
  by (simp add: xor_with_predecessors_def)

lemma chained_bound:
  assumes "length src = 256" "k < 343"
  shows "unat (xor_with_predecessors hi (six_bit_values src) ! k) < 64"
proof -
  have a: "take_bit 6 (six_bit_values src ! k) = six_bit_values src ! k"
    using assms by (rule six_bit_values_bound)
  have b: "take_bit 6 (six_bit_values src ! (k - 1)) = six_bit_values src ! (k - 1)"
    using assms by (intro six_bit_values_bound) simp_all
  show ?thesis unfolding unat_lt_64_iff
    using a b assms by (simp add: xor_with_predecessors_nth six_bit_values_length)
qed

lemma six_and_two_mapping_length: "length six_and_two_mapping = 64"
  by (simp add: six_and_two_mapping_def)

lemma map_six_bits_Some:
  assumes "c < length d" "unat (d ! c) < 64"
  shows "map_six_bits c d = Some (d[c := six_and_two_mapping ! unat (d ! c)])"
  using assms by (simp add: map_six_bits_def array_get_def array_set_def six_and_two_mapping_length)

lemma map_six_bits_loop:
  assumes b: "\<forall>k<length d. unat (d ! k) < 64"
  shows "for_loop 0 (length d) map_six_bits d = Some (map (\<lambda>b. six_and_two_mapping ! unat b) d)"
proof -
  let ?I = "\<lambda>c d'. length d' = length d
      \<and> (\<forall>k<c. d' ! k = six_and_two_mapping ! unat (d ! k))
      \<and> (\<forall>k. c \<le> k \<and> k < length d \<longrightarrow> d' ! k = d ! k)"
  have "\<exists>d'. for_loop 0 (length d) map_six_bits d = Some d' \<and> ?I (length d) d'"
  proof (rule for_loop_invariant[where I = ?I])
    show "?I 0 d" by simp
    show "0 \<le> length d" by simp
    fix j d' assume j: "j < length d" and inv: "?I j d'"
    have e: "d' ! j = d ! j" using inv j by simp
    have "map_six_bits j d' = Some (d'[j := six_and_two_mapping ! unat (d' ! j)])"
      using j inv b e by (intro map_six_bits_Some) simp_all
    moreover have "?I (j + 1) (d'[j := six_and_two_mapping ! unat (d' ! j)])"
      using inv j e by (auto simp: nth_list_update less_Suc_eq)
    ultimately show "\<exists>s'. map_six_bits j d' = Some s' \<and> ?I (j + 1) s'" by blast
  qed
  then obtain d' where d': "for_loop 0 (length d) map_six_bits d = Some d'" "?I (length d) d'"
    by blast
  have "d' = map (\<lambda>b. six_and_two_mapping ! unat b) d"
    using d'(2) by (intro nth_equalityI) simp_all
  then show ?thesis using d'(1) by simp
qed

lemma encode_6_and_2_eq:
  assumes "length dest = 343" "256 \<le> length src"
  shows "encode_6_and_2 dest src = Some (reference_6_and_2 341 (take 256 src))"
proof -
  let ?c = "xor_with_predecessors 341 (six_bit_values (take 256 src))"
  have len: "length ?c = 343"
    using assms by (simp add: xor_with_predecessors_length six_bit_values_length)
  have "\<forall>k<length ?c. unat (?c ! k) < 64"
    using assms len by (auto intro!: chained_bound)
  then have "for_loop 0 (length ?c) map_six_bits ?c = Some (map (\<lambda>b. six_and_two_mapping ! unat b) ?c)"
    by (rule map_six_bits_loop)
  then show ?thesis
    using assms len
    by (simp add: encode_6_and_2_def encode_6_and_2_chained_eq reference_6_and_2_def)
qed

lemma reference_6_and_2_length:
  "length src = 256 \<Longrightarrow> length (reference_6_and_2 hi src) = 343"
  by (simp add: reference_6_and_2_def xor_with_predecessors_length six_bit_values_length)

text \<open>
  C1 (amended): for a 256-byte sector and a 343-byte destination, \<^verbatim>\<open>encode_6_and_2\<close>
  returns the 343 bytes of the reference algorithm in which the XOR chain runs from index
  341 down to 1: the pre-nibble bytes 0..85, the high parts in 86..341, byte 342 a copy of
  byte 341, each byte 1..341 XORed with its original predecessor, byte 342 left as the
  copy, and every byte mapped through the 64-entry table.
\<close>

theorem encode_6_and_2_reference:
  assumes "length src = 256" "length dest = 343"
  shows "encode_6_and_2 dest src = Some (reference_6_and_2 341 src)
    \<and> length (reference_6_and_2 341 src) = 343"
  using assms encode_6_and_2_eq[of dest src] by (simp add: reference_6_and_2_length)

theorem encode_6_and_2_reference_witness:
  "encode_6_and_2 (replicate 343 0) (replicate 256 0xFF)
     = Some (reference_6_and_2 341 (replicate 256 0xFF))
   \<and> length (reference_6_and_2 341 (replicate 256 0xFF)) = 343"
  using encode_6_and_2_reference[of "replicate 256 0xFF" "replicate 343 0"] by simp

lemma reference_last:
  "reference_6_and_2 hi (replicate 256 0xFF) ! 342 = (if hi < 342 then 0xFF else 0x96)"
proof -
  let ?v = "six_bit_values (replicate 256 0xFF)"
  have len: "length ?v = 343" by (simp add: six_bit_values_length)
  have v: "?v ! 342 = 0x3F" "?v ! 341 = 0x3F"
    by (simp_all add: six_bit_values_nth)
  have x: "xor_with_predecessors hi ?v ! 342 = (if hi < 342 then 0x3F else 0)"
    using len v by (simp add: xor_with_predecessors_nth)
  have "reference_6_and_2 hi (replicate 256 0xFF) ! 342
      = six_and_two_mapping ! unat (xor_with_predecessors hi ?v ! 342)"
    using len by (simp add: reference_6_and_2_def xor_with_predecessors_length)
  then show ?thesis using x by (simp add: six_and_two_mapping_def)
qed

text \<open>
  C1 as stated, with the XOR chain starting at index 342, fails on the sector of 256 bytes
  \<open>0xFF\<close>: the code leaves byte 342 as the copy of byte 341 and emits \<open>0xFF\<close> for it,
  where the chain from 342 would give \<open>0x96\<close>.
\<close>

theorem encode_6_and_2_last_byte_not_chained:
  "encode_6_and_2 (replicate 343 0) (replicate 256 0xFF)
     \<noteq> Some (reference_6_and_2 342 (replicate 256 0xFF))
   \<and> map_option (\<lambda>d. d ! 342) (encode_6_and_2 (replicate 343 0) (replicate 256 0xFF)) = Some 0xFF
   \<and> reference_6_and_2 342 (replicate 256 0xFF) ! 342 = 0x96"
proof -
  have e: "encode_6_and_2 (replicate 343 0) (replicate 256 0xFF)
      = Some (reference_6_and_2 341 (replicate 256 0xFF))"
    using encode_6_and_2_eq[of "replicate 343 0" "replicate 256 0xFF"] by simp
  have a: "reference_6_and_2 341 (replicate 256 0xFF) ! 342 = 0xFF"
    by (simp add: reference_last)
  have b: "reference_6_and_2 342 (replicate 256 0xFF) ! 342 = 0x96"
    by (simp add: reference_last)
  have "reference_6_and_2 341 (replicate 256 0xFF) \<noteq> reference_6_and_2 342 (replicate 256 0xFF)"
  proof
    assume "reference_6_and_2 341 (replicate 256 0xFF) = reference_6_and_2 342 (replicate 256 0xFF)"
    then have "(0xFF::uint8) = 0x96" using a b by simp
    then show False by simp
  qed
  then show ?thesis using e a b by simp
qed

text \<open>
  C9: for a 256-byte sector, the bytes that the final loop of \<^verbatim>\<open>encode_6_and_2\<close> finds
  (after the packing, the copy of the high parts, the duplicate byte and the XOR chain) are
  all at most \<open>0x3F\<close>, every guarded read of the 64-entry table succeeds, and the function
  returns the table entries of those bytes.
\<close>

theorem encode_6_and_2_index_in_bounds:
  assumes "length src = 256" "length dest = 343"
  shows "\<exists>chained. encode_6_and_2_chained dest src = Some chained \<and> length chained = 343
    \<and> (\<forall>c<343. chained ! c \<le> 0x3F
          \<and> array_get six_and_two_mapping (unat (chained ! c)) \<noteq> None)
    \<and> encode_6_and_2 dest src = Some (map (\<lambda>b. six_and_two_mapping ! unat b) chained)"
proof -
  let ?c = "xor_with_predecessors 341 (six_bit_values src)"
  have c: "encode_6_and_2_chained dest src = Some ?c"
    using assms encode_6_and_2_chained_eq[of dest src] by simp
  have len: "length ?c = 343"
    using assms by (simp add: xor_with_predecessors_length six_bit_values_length)
  have bound: "\<forall>k<343. unat (?c ! k) < 64"
    using assms by (auto intro!: chained_bound)
  have le: "\<forall>k<343. ?c ! k \<le> 0x3F"
  proof (intro allI impI)
    fix k :: nat assume "k < 343"
    then have "unat (?c ! k) < 64" using bound by simp
    then show "?c ! k \<le> 0x3F" by (simp add: word_le_nat_alt)
  qed
  have look: "\<forall>k<343. array_get six_and_two_mapping (unat (?c ! k)) \<noteq> None"
    using bound by (simp add: array_get_def six_and_two_mapping_length)
  have e: "encode_6_and_2 dest src = Some (map (\<lambda>b. six_and_two_mapping ! unat b) ?c)"
    using assms encode_6_and_2_eq[of dest src] by (simp add: reference_6_and_2_def)
  show ?thesis using c len le look e by blast
qed

theorem encode_6_and_2_index_in_bounds_witness:
  "\<exists>chained. encode_6_and_2_chained (replicate 343 0) (replicate 256 0x5A) = Some chained
    \<and> length chained = 343
    \<and> (\<forall>c<343. chained ! c \<le> 0x3F
          \<and> array_get six_and_two_mapping (unat (chained ! c)) \<noteq> None)
    \<and> encode_6_and_2 (replicate 343 0) (replicate 256 0x5A)
         = Some (map (\<lambda>b. six_and_two_mapping ! unat b) chained)"
  using encode_6_and_2_index_in_bounds[of "replicate 256 0x5A" "replicate 343 0"] by simp

subsection \<open>The TMAP chunk\<close>

lemma mod4_cases: "(t::nat) mod 4 = 0 \<or> t mod 4 = 1 \<or> t mod 4 = 2 \<or> t mod 4 = 3"
proof -
  have "t mod 4 < 4" by simp
  then show ?thesis by linarith
qed

lemma tmap_entry_Some:
  assumes "t < length d"
  shows "tmap_entry t (d, t) = Some (d[t := tmap_rule t], t + 1)"
  using assms mod4_cases[of t]
  by (auto simp: tmap_entry_def tmap_rule_def write_uint8_def array_set_def Let_def)

lemma tmap_loop:
  "for_loop 0 160 tmap_entry (replicate 160 0, 0) = Some (map tmap_rule [0..<160], 160)"
proof -
  let ?I = "\<lambda>t (s :: uint8 list \<times> nat). snd s = t \<and> length (fst s) = 160
      \<and> (\<forall>k<t. fst s ! k = tmap_rule k)"
  have "\<exists>s'. for_loop 0 160 tmap_entry (replicate 160 0, 0) = Some s' \<and> ?I 160 s'"
  proof (rule for_loop_invariant[where I = ?I])
    show "?I 0 (replicate 160 0, 0)" by simp
    show "(0::nat) \<le> 160" by simp
    fix j and s :: "uint8 list \<times> nat" assume j: "j < 160" and inv: "?I j s"
    obtain d where s: "s = (d, j)" using inv by (cases s) simp
    have "tmap_entry j s = Some (d[j := tmap_rule j], j + 1)"
      unfolding s using j inv s by (intro tmap_entry_Some) simp
    moreover have "?I (j + 1) (d[j := tmap_rule j], j + 1)"
      using inv j s by (auto simp: nth_list_update less_Suc_eq)
    ultimately show "\<exists>s'. tmap_entry j s = Some s' \<and> ?I (j + 1) s'" by blast
  qed
  then obtain d b where r: "for_loop 0 160 tmap_entry (replicate 160 0, 0) = Some (d, b)"
      "b = 160" "length d = 160" "\<forall>k<160. d ! k = tmap_rule k"
    by auto
  have "d = map tmap_rule [0..<160]"
    using r(3,4) by (intro nth_equalityI) simp_all
  then show ?thesis using r by simp
qed

lemma create_tmap_chunk_eq:
  "create_tmap_chunk = Some \<lparr>name = 0x544D4150, data_length = 160, data = map tmap_rule [0..<160]\<rparr>"
  by (simp add: create_tmap_chunk_def create_chunk_def tmap_loop)

lemma tmap_literal: "map tmap_rule [0..<160] =
  [0, 0, 255, 1, 1, 1, 255, 2, 2, 2, 255, 3, 3, 3, 255, 4, 4, 4, 255, 5, 5,
   5, 255, 6, 6, 6, 255, 7, 7, 7, 255, 8, 8, 8, 255, 9, 9, 9, 255, 10, 10,
   10, 255, 11, 11, 11, 255, 12, 12, 12, 255, 13, 13, 13, 255, 14, 14, 14,
   255, 15, 15, 15, 255, 16, 16, 16, 255, 17, 17, 17, 255, 18, 18, 18, 255,
   19, 19, 19, 255, 20, 20, 20, 255, 21, 21, 21, 255, 22, 22, 22, 255, 23,
   23, 23, 255, 24, 24, 24, 255, 25, 25, 25, 255, 26, 26, 26, 255, 27, 27,
   27, 255, 28, 28, 28, 255, 29, 29, 29, 255, 30, 30, 30, 255, 31, 31, 31,
   255, 32, 32, 32, 255, 33, 33, 33, 255, 34, 34, 34, 255, 255, 255, 255,
   255, 255, 255, 255, 255, 255, 255, 255, 255, 255, 255, 255, 255, 255,
   255, 255, 255, 255]"
  by code_simp

lemma tmap_counts:
  "count_list (map tmap_rule [0..<160]) 0xFF = 56"
  "count_list (take 139 (map tmap_rule [0..<160])) 0xFF = 35"
  "length (filter (\<lambda>b. b \<noteq> 0xFF) (map tmap_rule [0..<160])) = 104"
  "length (filter (\<lambda>b. b \<noteq> 0xFF) (take 139 (map tmap_rule [0..<160]))) = 104"
  "drop 139 (map tmap_rule [0..<160]) = replicate 21 0xFF"
  unfolding tmap_literal by code_simp+

text \<open>
  C5: the TMAP chunk is built with a payload of 160 bytes, and entry \<open>t\<close> is \<open>0xFF\<close>
  when \<open>t \<ge> 139\<close> or \<open>t mod 4 = 2\<close>, and otherwise it is \<open>t div 4 + 1\<close> when
  \<open>t mod 4 = 3\<close> and \<open>t div 4\<close> when \<open>t mod 4\<close> is 0 or 1; the cut-off at 139, which
  keeps a track 35 out of the map, comes before the other cases.
\<close>

theorem create_tmap_chunk_entries:
  "\<exists>chunk. create_tmap_chunk = Some chunk \<and> data_length chunk = 160
     \<and> length (data chunk) = 160
     \<and> (\<forall>t<160. data chunk ! t =
           (if t \<ge> 139 \<or> t mod 4 = 2 then 0xFF
            else if t mod 4 = 3 then of_nat (t div 4 + 1)
            else of_nat (t div 4)))"
  by (simp add: create_tmap_chunk_eq tmap_rule_def)

theorem create_tmap_chunk_entries_witness:
  "\<exists>chunk. create_tmap_chunk = Some chunk \<and> data chunk ! 137 = 34 \<and> data chunk ! 139 = 0xFF
     \<and> data chunk ! 140 = 0xFF \<and> data chunk ! 7 = 2"
proof -
  obtain chunk where c: "create_tmap_chunk = Some chunk"
     and e: "\<forall>t<160. data chunk ! t =
           (if t \<ge> 139 \<or> t mod 4 = 2 then 0xFF
            else if t mod 4 = 3 then of_nat (t div 4 + 1)
            else of_nat (t div 4))"
    using create_tmap_chunk_entries by blast
  have "data chunk ! 137 = 34" "data chunk ! 139 = 0xFF" "data chunk ! 140 = 0xFF"
      "data chunk ! 7 = 2"
    using e[rule_format, of 137] e[rule_format, of 139] e[rule_format, of 140]
      e[rule_format, of 7] by simp_all
  then show ?thesis using c by blast
qed

lemma tmap_positions:
  "list_all (\<lambda>t. if t mod 4 = 2 then tmap_rule t = 0xFF else tmap_rule t \<le> 34) [0..<139]"
  by code_simp

text \<open>
  C6 (amended): the 21 entries at the positions 139..159 are all \<open>0xFF\<close>; of the 139
  entries at the positions 0..138, the 35 with \<open>t mod 4 = 2\<close> are \<open>0xFF\<close> and the other 104
  hold a track number, which is at most 34; so 56 of the 160 entries are \<open>0xFF\<close>.
\<close>

theorem create_tmap_chunk_counts:
  "\<exists>chunk. create_tmap_chunk = Some chunk \<and> length (data chunk) = 160
     \<and> drop 139 (data chunk) = replicate 21 0xFF
     \<and> (\<forall>t<139. if t mod 4 = 2 then data chunk ! t = 0xFF else data chunk ! t \<le> 34)
     \<and> length (filter (\<lambda>t. t mod 4 = 2) [0..<139]) = 35
     \<and> length (filter (\<lambda>b. b \<noteq> 0xFF) (take 139 (data chunk))) = 104
     \<and> count_list (take 139 (data chunk)) 0xFF = 35
     \<and> count_list (data chunk) 0xFF = 56"
proof -
  let ?c = "\<lparr>name = 0x544D4150, data_length = 160, data = map tmap_rule [0..<160]\<rparr>"
  have d: "data ?c = map tmap_rule [0..<160]" by simp
  have "length (data ?c) = 160" by simp
  moreover have "drop 139 (data ?c) = replicate 21 0xFF"
    "length (filter (\<lambda>b. b \<noteq> 0xFF) (take 139 (data ?c))) = 104"
    "count_list (take 139 (data ?c)) 0xFF = 35"
    "count_list (data ?c) 0xFF = 56"
    unfolding d by (rule tmap_counts)+
  moreover have "\<forall>t<139. if t mod 4 = 2 then data ?c ! t = 0xFF else data ?c ! t \<le> 34"
  proof (intro allI impI)
    fix t :: nat assume t: "t < 139"
    then have "t \<in> set [0..<139]" by simp
    then have "if t mod 4 = 2 then tmap_rule t = 0xFF else tmap_rule t \<le> 34"
      using tmap_positions unfolding list_all_iff by blast
    moreover have "data ?c ! t = tmap_rule t" using t by simp
    ultimately show "if t mod 4 = 2 then data ?c ! t = 0xFF else data ?c ! t \<le> 34"
      by simp
  qed
  moreover have "length (filter (\<lambda>t. t mod 4 = 2) [0..<139]) = 35"
    by code_simp
  ultimately show ?thesis using create_tmap_chunk_eq by blast
qed

theorem create_tmap_chunk_counts_witness:
  "\<exists>chunk. create_tmap_chunk = Some chunk \<and> data chunk ! 2 = 0xFF \<and> data chunk ! 138 = 0xFF
     \<and> data chunk ! 4 \<le> 34 \<and> data chunk ! 137 \<le> 34
     \<and> count_list (data chunk) 0xFF = 56"
proof -
  obtain chunk where c: "create_tmap_chunk = Some chunk"
      and p: "\<forall>t<139. if t mod 4 = 2 then data chunk ! t = 0xFF else data chunk ! t \<le> 34"
      and n: "count_list (data chunk) 0xFF = 56"
    using create_tmap_chunk_counts by blast
  have "data chunk ! 2 = 0xFF" "data chunk ! 138 = 0xFF" "data chunk ! 4 \<le> 34"
      "data chunk ! 137 \<le> 34"
    using p[rule_format, of 2] p[rule_format, of 138] p[rule_format, of 4]
      p[rule_format, of 137] by simp_all
  then show ?thesis using c n by blast
qed

text \<open>
  C6 as stated fails: the chunk has 56 entries equal to \<open>0xFF\<close>, not 21, and 104 entries
  that hold a track number, not 139.
\<close>

theorem create_tmap_chunk_not_21_unused:
  "count_list (data (the create_tmap_chunk)) 0xFF \<noteq> 21
   \<and> length (filter (\<lambda>b. b \<noteq> 0xFF) (data (the create_tmap_chunk))) \<noteq> 139"
proof -
  have d: "data (the create_tmap_chunk) = map tmap_rule [0..<160]"
    by (simp add: create_tmap_chunk_eq)
  show ?thesis unfolding d tmap_counts by simp
qed

subsection \<open>The bit count of a track\<close>

lemma writesI:
  assumes "\<And>dest bit_index. bit_index + k \<le> 8 * length dest \<Longrightarrow>
     \<exists>dest'. f dest bit_index = Some (dest', bit_index + k) \<and> length dest' = length dest"
  shows "writes k f"
  using assms by (simp add: writes_def)

lemma writesD:
  assumes "writes k f" "bit_index + k \<le> 8 * length dest"
  obtains dest' where "f dest bit_index = Some (dest', bit_index + k)" "length dest' = length dest"
  using assms unfolding writes_def by blast

lemma writes_bits_write_byte: "writes 8 (\<lambda>dest bit_index. bits_write_byte dest bit_index v)"
proof (rule writesI)
  fix dest :: "uint8 list" and bit_index :: nat
  assume cap: "bit_index + 8 \<le> 8 * length dest"
  show "\<exists>dest'. bits_write_byte dest bit_index v = Some (dest', bit_index + 8)
      \<and> length dest' = length dest"
  proof (cases "bit_index mod 8 = 0")
    case True
    have "bit_index div 8 < length dest" using cap by simp
    then show ?thesis using bits_write_byte_aligned[OF True, of dest v] by simp
  next
    case False
    have "bit_index div 8 + 1 < length dest" using cap False by (rule unaligned_room)
    then show ?thesis using bits_write_byte_unaligned[OF False, of dest v] by simp
  qed
qed

lemma writes_bind:
  assumes f: "writes k f" and g: "writes m g"
  shows "writes (k + m) (\<lambda>dest bit_index. f dest bit_index \<bind> (\<lambda>(dest, bit_index). g dest bit_index))"
proof (rule writesI)
  fix dest :: "uint8 list" and bit_index :: nat
  define K where "K = k + m"
  have K: "k + m = K" by (simp add: K_def)
  assume "bit_index + (k + m) \<le> 8 * length dest"
  then have cap: "bit_index + K \<le> 8 * length dest" using K by simp
  obtain d1 where d1: "f dest bit_index = Some (d1, bit_index + k)" "length d1 = length dest"
    using f cap K by (elim writesD[where dest = dest and bit_index = bit_index]) simp_all
  obtain d2 where d2: "g d1 (bit_index + k) = Some (d2, bit_index + k + m)" "length d2 = length d1"
    using g cap K d1(2) by (elim writesD[where dest = d1 and bit_index = "bit_index + k"]) simp_all
  show "\<exists>dest'. f dest bit_index \<bind> (\<lambda>(dest, bit_index). g dest bit_index)
        = Some (dest', bit_index + (k + m))
      \<and> length dest' = length dest"
    using d1 d2 by (simp add: add.assoc)
qed

lemma writes_return: "writes 0 (\<lambda>dest bit_index. Some (dest, bit_index))"
  by (rule writesI) simp

lemma writes_skip:
  "writes k (\<lambda>dest bit_index. Some (dest, bit_index + k))"
  by (rule writesI) simp

lemma writes_4_and_4: "writes 16 (\<lambda>dest bit_index. bits_write_4_and_4 dest bit_index v)"
proof -
  have "writes (8 + (8 + 0)) (\<lambda>dest bit_index. bits_write_4_and_4 dest bit_index v)"
    unfolding bits_write_4_and_4_def
    by (rule writes_bind writes_bits_write_byte writes_return)+
  then show ?thesis by simp
qed

lemma writes_sync: "writes 10 bits_write_sync"
proof -
  have "writes (8 + 2) (\<lambda>dest bit_index. bits_write_sync dest bit_index)"
    unfolding bits_write_sync_def
    by (rule writes_bind writes_bits_write_byte writes_skip)+
  then show ?thesis by simp
qed

lemma writes_for_loop:
  assumes body: "\<And>j. j < n \<Longrightarrow> writes (k j) (\<lambda>dest bit_index. body j (dest, bit_index))"
  shows "writes (sum k {0..<n}) (\<lambda>dest bit_index. for_loop 0 n body (dest, bit_index))"
proof (rule writesI)
  fix dest :: "uint8 list" and bit_index :: nat
  assume cap: "bit_index + sum k {0..<n} \<le> 8 * length dest"
  let ?I = "\<lambda>j (s :: uint8 list \<times> nat). length (fst s) = length dest
      \<and> snd s = bit_index + sum k {0..<j}"
  have "\<exists>s'. for_loop 0 n body (dest, bit_index) = Some s' \<and> ?I n s'"
  proof (rule for_loop_invariant[where I = ?I])
    show "?I 0 (dest, bit_index)" by simp
    show "0 \<le> n" by simp
    fix j and s :: "uint8 list \<times> nat" assume j: "j < n" and inv: "?I j s"
    obtain d i where s: "s = (d, i)" by (cases s)
    have "sum k {0..<j + 1} \<le> sum k {0..<n}"
      using j by (intro sum_mono2) auto
    then have room: "i + k j \<le> 8 * length d" using inv s cap by simp
    obtain d' where d': "body j (d, i) = Some (d', i + k j)" "length d' = length d"
      using body[OF j] room by (elim writesD[where dest = d and bit_index = i]) simp_all
    show "\<exists>s'. body j s = Some s' \<and> ?I (j + 1) s'"
      using d' inv s by simp
  qed
  then show "\<exists>dest'. for_loop 0 n body (dest, bit_index) = Some (dest', bit_index + sum k {0..<n})
      \<and> length dest' = length dest"
    by auto
qed

lemma writes_sync_words:
  "writes (10 * n) (\<lambda>dest bit_index. for_loop 0 n write_sync_word (dest, bit_index))"
proof -
  have "writes (sum (\<lambda>j. 10) {0..<n}) (\<lambda>dest bit_index. for_loop 0 n write_sync_word (dest, bit_index))"
    by (rule writes_for_loop) (simp add: write_sync_word_def writes_sync)
  then show ?thesis by (simp add: mult.commute)
qed

lemma writes_encoded_bytes:
  assumes "length encoded_contents = n"
  shows "writes (8 * n)
    (\<lambda>dest bit_index. for_loop 0 n (write_encoded_byte encoded_contents) (dest, bit_index))"
proof -
  have "writes (sum (\<lambda>j. 8) {0..<n})
     (\<lambda>dest bit_index. for_loop 0 n (write_encoded_byte encoded_contents) (dest, bit_index))"
  proof (rule writes_for_loop)
    fix j assume "j < n"
    then show "writes 8 (\<lambda>dest bit_index. write_encoded_byte encoded_contents j (dest, bit_index))"
      using assms by (simp add: write_encoded_byte_def array_get_def writes_bits_write_byte)
  qed
  then show ?thesis by (simp add: mult.commute)
qed


lemma logical_sector_le: "s < 16 \<Longrightarrow> logical_sector sector_format s \<le> 15"
proof -
  have "(s * 7) mod 15 < 15" "(s * 8) mod 15 < 15" by simp_all
  then show ?thesis by (simp add: logical_sector_def Let_def)
qed

lemma writes_sector:
  assumes src: "BYTES_PER_TRACK \<le> length src" and s: "s < SECTORS_PER_TRACK"
  shows "writes (if s < 15 then 3134 else 2982)
    (\<lambda>dest bit_index. encode_bits_for_sector src track_number sector_format s (dest, bit_index))"
proof -
  let ?sec = "drop (logical_sector sector_format s * BYTES_PER_SECTOR) src"
  let ?ec = "reference_6_and_2 341 (take 256 ?sec)"
  have "logical_sector sector_format s * 256 + 256 \<le> 4096"
    using logical_sector_le[OF s, of sector_format] by simp
  then have len: "256 \<le> length ?sec" using src by simp
  have enc: "encode_6_and_2 (replicate BITS_SECTOR_CONTENTS_SIZE 0) ?sec = Some ?ec"
    using len by (intro encode_6_and_2_eq) simp_all
  have eclen: "length ?ec = 343"
    using len by (simp add: reference_6_and_2_length)
  note step = writes_bind writes_bits_write_byte writes_4_and_4 writes_sync_words
      writes_encoded_bytes[OF eclen]
  show ?thesis
  proof (cases "s < 15")
    case True
    then have c: "s < SECTORS_PER_TRACK - 1" by simp
    have "writes (8 + (8 + (8 + (16 + (16 + (16 + (16 + (8 + (8 + (8 + (10 * 7
        + (8 + (8 + (8 + (8 * 343 + (8 + (8 + (8 + 10 * 16))))))))))))))))))
      (\<lambda>dest bit_index. encode_bits_for_sector src track_number sector_format s (dest, bit_index))"
      apply (simp only: encode_bits_for_sector_def case_prod_conv enc bind.bind_lunit if_P[OF c])
      apply (rule step)+
      done
    then show ?thesis using True by simp
  next
    case False
    then have c: "\<not> s < SECTORS_PER_TRACK - 1" by simp
    have "writes (8 + (8 + (8 + (16 + (16 + (16 + (16 + (8 + (8 + (8 + (10 * 7
        + (8 + (8 + (8 + (8 * 343 + (8 + (8 + (8 + 8))))))))))))))))))
      (\<lambda>dest bit_index. encode_bits_for_sector src track_number sector_format s (dest, bit_index))"
      apply (simp only: encode_bits_for_sector_def case_prod_conv enc bind.bind_lunit if_not_P[OF c])
      apply (rule step)+
      done
    then show ?thesis using False by simp
  qed
qed

lemma sector_bits_sum: "sum (\<lambda>s::nat. if s < 15 then 3134 else 2982) {0..<16} = (49992::nat)"
proof -
  have "sum (\<lambda>s::nat. if s < 15 then 3134 else 2982) {0..<Suc 15}
      = sum (\<lambda>s::nat. if s < 15 then 3134 else 2982) {0..<15} + (2982::nat)"
    by (subst sum.atLeast0_lessThan_Suc) simp
  moreover have "sum (\<lambda>s::nat. if s < 15 then 3134 else 2982) {0..<15} = sum (\<lambda>s::nat. 3134::nat) {0..<15}"
    by (rule sum.cong) simp_all
  ultimately show ?thesis by simp
qed

lemma encode_bits_for_track_ok:
  assumes src: "BYTES_PER_TRACK \<le> length src" and dest: "BITS_TRACK_SIZE \<le> length dest"
  shows "\<exists>dest'. encode_bits_for_track dest src track_number sector_format = Some (dest', 50632)
    \<and> length dest' = length dest"
proof -
  let ?z = "replicate BITS_TRACK_SIZE 0 @ drop BITS_TRACK_SIZE dest"
  have z: "memset dest 0 BITS_TRACK_SIZE = Some ?z" "length ?z = length dest"
    using dest by (simp_all add: memset_def)
  have sectors: "writes (sum (\<lambda>s::nat. if s < 15 then 3134 else 2982) {0..<16})
     (\<lambda>dest bit_index. for_loop 0 SECTORS_PER_TRACK
        (encode_bits_for_sector src track_number sector_format) (dest, bit_index))"
    using src by (intro writes_for_loop writes_sector) simp_all
  have "writes (10 * 64 + (sum (\<lambda>s::nat. if s < 15 then 3134 else 2982) {0..<16} + 0))
     (\<lambda>dest bit_index. for_loop 0 TRACK_LEADER_SYNC_COUNT write_sync_word (dest, bit_index)
        \<bind> (\<lambda>(dest, bit_index). for_loop 0 SECTORS_PER_TRACK
              (encode_bits_for_sector src track_number sector_format) (dest, bit_index)
        \<bind> (\<lambda>(dest, bit_index). Some (dest, bit_index))))"
    by (rule writes_bind writes_sync_words sectors writes_return)+
  then have w: "writes 50632
     (\<lambda>dest bit_index. for_loop 0 TRACK_LEADER_SYNC_COUNT write_sync_word (dest, bit_index)
        \<bind> (\<lambda>(dest, bit_index). for_loop 0 SECTORS_PER_TRACK
              (encode_bits_for_sector src track_number sector_format) (dest, bit_index)
        \<bind> (\<lambda>(dest, bit_index). Some (dest, bit_index))))"
    by (simp add: sector_bits_sum)
  have "0 + 50632 \<le> 8 * length ?z" using dest by simp
  from writesD[OF w this] obtain dest' where
    "for_loop 0 TRACK_LEADER_SYNC_COUNT write_sync_word (?z, 0)
        \<bind> (\<lambda>(dest, bit_index). for_loop 0 SECTORS_PER_TRACK
              (encode_bits_for_sector src track_number sector_format) (dest, bit_index)
        \<bind> (\<lambda>(dest, bit_index). Some (dest, bit_index))) = Some (dest', 0 + 50632)"
    "length dest' = length ?z"
    by blast
  then show ?thesis using z by (simp add: encode_bits_for_track_def)
qed

text \<open>
  C3: for a disk image of 143,360 bytes, a track number below 35 and either sector format,
  \<^verbatim>\<open>encode_bits_for_track\<close> succeeds on a destination of at least one track buffer and
  returns the bit count 50,632, whatever the track number, the format and the content of the
  sectors; the count is at most 53,248, the bits of one track buffer of 13 blocks.
\<close>

theorem valid_bit_count_uniform:
  assumes "length dsk = DSK_IMAGE_SIZE" and "t < TRACKS_PER_DISK"
    and "BITS_TRACK_SIZE \<le> length dest"
  shows "\<exists>dest'. encode_bits_for_track dest (drop (t * BYTES_PER_TRACK) dsk) (int t) sector_format
        = Some (dest', 50632)
      \<and> length dest' = length dest \<and> (50632::nat) \<le> 8 * BITS_TRACK_SIZE"
proof -
  have "t * 4096 + 4096 \<le> 143360" using assms(2) by simp
  then have "BYTES_PER_TRACK \<le> length (drop (t * BYTES_PER_TRACK) dsk)"
    using assms(1) by simp
  from encode_bits_for_track_ok[OF this assms(3)] show ?thesis by simp
qed

theorem valid_bit_count_uniform_witness:
  "\<exists>dest'. encode_bits_for_track (replicate 6656 0xEE) (replicate 4096 0x5A) 34
        dsk_sector_format_prodos = Some (dest', 50632)
      \<and> length dest' = 6656"
  using valid_bit_count_uniform[of "replicate 143360 0x5A" 34 "replicate 6656 0xEE"
      dsk_sector_format_prodos]
  by simp

subsection \<open>Byte writers\<close>

lemma low_byte_16: "(ucast ((v::uint16) AND 0xFF) :: uint8) = ucast v"
proof -
  have m: "(0xFF::uint16) = mask 8" by (simp add: mask_eq_exp_minus_1)
  show ?thesis unfolding m by (rule bit_eqI) (auto simp: bit_simps)
qed

lemma low_byte_32: "(ucast ((v::uint32) AND 0xFF) :: uint8) = ucast v"
proof -
  have m: "(0xFF::uint32) = mask 8" by (simp add: mask_eq_exp_minus_1)
  show ?thesis unfolding m by (rule bit_eqI) (auto simp: bit_simps)
qed

lemma join_16:
  "ucast (ucast v :: uint8) OR push_bit 8 (ucast (ucast (drop_bit 8 v) :: uint8)) = (v::uint16)"
  by (rule bit_eqI) (auto simp: bit_simps dest: bit_imp_le_length)

lemma join_32:
  "ucast (ucast v :: uint8) OR push_bit 8 (ucast (ucast (drop_bit 8 v) :: uint8))
     OR push_bit 16 (ucast (ucast (drop_bit 16 v) :: uint8))
     OR push_bit 24 (ucast (ucast (drop_bit 24 v) :: uint8)) = (v::uint32)"
  (is "?l = v")
proof (rule bit_eqI)
  fix n :: nat
  assume "possible_bit TYPE(uint32) n"
  then have n: "n < 32" by (simp add: possible_bit_def)
  consider "n < 8" | "8 \<le> n" "n < 16" | "16 \<le> n" "n < 24" | "24 \<le> n" "n < 32"
    using n by linarith
  then show "bit ?l n = bit v n"
    by cases (auto simp add: bit_simps)
qed

lemma write_uint16_eq:
  assumes "off + 1 < length d"
  shows "write_uint16 d off v = Some (d[off := ucast v, off + 1 := ucast (drop_bit 8 v)])"
  using assms by (simp add: write_uint16_def array_set_def low_byte_16)

lemma write_uint32_eq:
  assumes "off + 3 < length d"
  shows "write_uint32 d off v = Some (d[off := ucast v, off + 1 := ucast (drop_bit 8 v),
     off + 2 := ucast (drop_bit 16 v), off + 3 := ucast (drop_bit 24 v)])"
  using assms by (simp add: write_uint32_def array_set_def low_byte_32)

lemma write_uint16_le16:
  assumes "off + 1 < length d"
  shows "\<exists>d'. write_uint16 d off v = Some d' \<and> length d' = length d \<and> le16_at d' off = v
    \<and> (\<forall>k. k \<noteq> off \<and> k \<noteq> off + 1 \<longrightarrow> d' ! k = d ! k)"
  using assms by (simp add: write_uint16_eq le16_at_def join_16)

lemma write_uint32_le32:
  assumes "off + 3 < length d"
  shows "\<exists>d'. write_uint32 d off v = Some d' \<and> length d' = length d \<and> le32_at d' off = v
    \<and> (\<forall>k. k < off \<or> off + 4 \<le> k \<longrightarrow> d' ! k = d ! k)"
  using assms by (simp add: write_uint32_eq le32_at_def join_32)

lemma le16_at_cong:
  "d' ! off = d ! off \<Longrightarrow> d' ! (off + 1) = d ! (off + 1) \<Longrightarrow> le16_at d' off = le16_at d off"
  by (simp add: le16_at_def)

subsection \<open>The TRKS chunk\<close>

lemma trks_entry_step:
  assumes room: "bi + 8 \<le> length d"
  shows "\<exists>d'. trks_entry vb i (d, bi, sb) = Some (d', bi + 8, sb + 13) \<and> length d' = length d
    \<and> le16_at d' bi = sb \<and> le16_at d' (bi + 2) = 13 \<and> le32_at d' (bi + 4) = vb
    \<and> (\<forall>k. k < bi \<or> bi + 8 \<le> k \<longrightarrow> d' ! k = d ! k)"
proof -
  obtain d1 where d1: "write_uint16 d bi sb = Some d1" "length d1 = length d" "le16_at d1 bi = sb"
      "\<forall>k. k \<noteq> bi \<and> k \<noteq> bi + 1 \<longrightarrow> d1 ! k = d ! k"
    using write_uint16_le16[of bi d sb] room by auto
  obtain d2 where d2: "write_uint16 d1 (bi + 2) 13 = Some d2" "length d2 = length d1"
      "le16_at d2 (bi + 2) = 13" "\<forall>k. k \<noteq> bi + 2 \<and> k \<noteq> bi + 2 + 1 \<longrightarrow> d2 ! k = d1 ! k"
    using write_uint16_le16[of "bi + 2" d1 13] room d1(2) by auto
  obtain d3 where d3: "write_uint32 d2 (bi + 4) vb = Some d3" "length d3 = length d2"
      "le32_at d3 (bi + 4) = vb" "\<forall>k. k < bi + 4 \<or> bi + 4 + 4 \<le> k \<longrightarrow> d3 ! k = d2 ! k"
    using write_uint32_le32[of "bi + 4" d2 vb] room d1(2) d2(2) by auto
  have e: "bi + 2 + 2 = bi + 4" "(of_nat 13 :: uint16) = 13" by simp_all
  have "trks_entry vb i (d, bi, sb) = Some (d3, bi + 4 + 4, sb + 13)"
    by (simp only: trks_entry_def Let_def case_prod_conv e d1(1) d2(1) d3(1) bind.bind_lunit)
  then have run: "trks_entry vb i (d, bi, sb) = Some (d3, bi + 8, sb + 13)"
    by simp
  have a: "le16_at d3 bi = sb"
  proof -
    have "le16_at d3 bi = le16_at d1 bi"
      using d3(4) d2(4) by (intro le16_at_cong) simp_all
    then show ?thesis using d1(3) by simp
  qed
  have b: "le16_at d3 (bi + 2) = 13"
  proof -
    have "le16_at d3 (bi + 2) = le16_at d2 (bi + 2)"
      using d3(4) by (intro le16_at_cong) simp_all
    then show ?thesis using d2(3) by simp
  qed
  have frame: "\<forall>k. k < bi \<or> bi + 8 \<le> k \<longrightarrow> d3 ! k = d ! k"
    using d1(4) d2(4) d3(4) by auto
  show ?thesis using run d1(2) d2(2) d3(2,3) a b frame by simp
qed

lemma trks_loop:
  fixes d0 :: "uint8 list"
  assumes len: "280 \<le> length d0"
  shows "\<exists>d bi sb. for_loop 0 TRACKS_PER_DISK (trks_entry vb) (d0, 0, 3) = Some (d, bi, sb)
    \<and> length d = length d0
    \<and> (\<forall>i<35. le16_at d (8 * i) = 3 + 13 * of_nat i \<and> le16_at d (8 * i + 2) = 13
          \<and> le32_at d (8 * i + 4) = vb)
    \<and> (\<forall>k. 280 \<le> k \<longrightarrow> d ! k = d0 ! k)"
proof -
  let ?I = "\<lambda>n (s :: uint8 list \<times> nat \<times> uint16). length (fst s) = length d0
      \<and> fst (snd s) = 8 * n \<and> snd (snd s) = 3 + 13 * of_nat n
      \<and> (\<forall>i<n. le16_at (fst s) (8 * i) = 3 + 13 * of_nat i \<and> le16_at (fst s) (8 * i + 2) = 13
            \<and> le32_at (fst s) (8 * i + 4) = vb)
      \<and> (\<forall>k. 8 * n \<le> k \<longrightarrow> fst s ! k = d0 ! k)"
  have "\<exists>s'. for_loop 0 TRACKS_PER_DISK (trks_entry vb) (d0, 0, 3) = Some s' \<and> ?I 35 s'"
  proof (rule for_loop_invariant[where I = ?I])
    show "?I 0 (d0, 0, 3)" by simp
    show "(0::nat) \<le> 35" by simp
    fix j and s :: "uint8 list \<times> nat \<times> uint16" assume j: "j < 35" and inv: "?I j s"
    obtain d where s: "s = (d, 8 * j, 3 + 13 * of_nat j)" using inv by (cases s) auto
    have room: "8 * j + 8 \<le> length d" using j inv s len by simp
    from trks_entry_step[OF room, of vb j "3 + 13 * of_nat j"]
    obtain d' where d': "trks_entry vb j (d, 8 * j, 3 + 13 * of_nat j)
          = Some (d', 8 * j + 8, 3 + 13 * of_nat j + 13)"
        "length d' = length d" "le16_at d' (8 * j) = 3 + 13 * of_nat j"
        "le16_at d' (8 * j + 2) = 13" "le32_at d' (8 * j + 4) = vb"
        "\<forall>k. k < 8 * j \<or> 8 * j + 8 \<le> k \<longrightarrow> d' ! k = d ! k"
      by blast
    have old: "le16_at d' (8 * i) = le16_at d (8 * i) \<and> le16_at d' (8 * i + 2) = le16_at d (8 * i + 2)
        \<and> le32_at d' (8 * i + 4) = le32_at d (8 * i + 4)" if "i < j" for i
    proof -
      have "8 * i + 8 \<le> 8 * j" using that by simp
      then have "\<forall>k < 8 * i + 8. d' ! k = d ! k" using d'(6) by simp
      then show ?thesis by (simp add: le16_at_def le32_at_def)
    qed
    have "?I (j + 1) (d', 8 * j + 8, 3 + 13 * of_nat j + 13)"
      using inv s d'(2-6) old by (auto simp: less_Suc_eq)
    then show "\<exists>s'. trks_entry vb j s = Some s' \<and> ?I (j + 1) s'"
      using d'(1) s by simp
  qed
  then show ?thesis by auto
qed

lemma create_trks_chunk_ok:
  assumes td: "TRACKS_PER_DISK * BITS_TRACK_SIZE \<le> length track_data"
  shows "\<exists>chunk. create_trks_chunk track_data vb = Some chunk
    \<and> name chunk = 0x54524B53 \<and> data_length chunk = 234240 \<and> length (data chunk) = 234240
    \<and> (\<forall>i<35. le16_at (data chunk) (8 * i) = 3 + 13 * of_nat i
          \<and> le16_at (data chunk) (8 * i + 2) = 13 \<and> le32_at (data chunk) (8 * i + 4) = vb)
    \<and> (\<forall>k. 280 \<le> k \<and> k < 1280 \<longrightarrow> data chunk ! k = 0)
    \<and> drop 1280 (data chunk) = take (TRACKS_PER_DISK * BITS_TRACK_SIZE) track_data"
proof -
  let ?d0 = "replicate 234240 (0::uint8)"
  obtain d bi sb where l: "for_loop 0 TRACKS_PER_DISK (trks_entry vb) (?d0, 0, 3) = Some (d, bi, sb)"
      "length d = length ?d0"
      "\<forall>i<35. le16_at d (8 * i) = 3 + 13 * of_nat i \<and> le16_at d (8 * i + 2) = 13
          \<and> le32_at d (8 * i + 4) = vb"
      "\<forall>k. 280 \<le> k \<longrightarrow> d ! k = ?d0 ! k"
    using trks_loop[of ?d0 vb] by auto
  let ?f = "take 1280 d @ take 232960 track_data @ drop (1280 + 232960) d"
  have len: "length d = 234240" using l(2) by simp
  have m: "memcpy d 1280 track_data (TRACKS_PER_DISK * BITS_TRACK_SIZE) = Some ?f"
    using td len by (simp add: memcpy_def)
  have run: "create_trks_chunk track_data vb
      = Some \<lparr>name = 0x54524B53, data_length = 234240, data = ?f\<rparr>"
    using l(1) m by (simp add: create_trks_chunk_def create_chunk_def)
  have low: "\<forall>k<1280. ?f ! k = d ! k" using len by (simp add: nth_append)
  have dir: "le16_at ?f (8 * i) = 3 + 13 * of_nat i \<and> le16_at ?f (8 * i + 2) = 13
      \<and> le32_at ?f (8 * i + 4) = vb" if "i < 35" for i
  proof -
    have "8 * i + 8 \<le> 1280" using that by simp
    then have "\<forall>k < 8 * i + 8. ?f ! k = d ! k" using low by simp
    then have "le16_at ?f (8 * i) = le16_at d (8 * i)" "le16_at ?f (8 * i + 2) = le16_at d (8 * i + 2)"
        "le32_at ?f (8 * i + 4) = le32_at d (8 * i + 4)"
      by (simp_all add: le16_at_def le32_at_def)
    then show ?thesis using l(3) that by simp
  qed
  have zero: "\<forall>k. 280 \<le> k \<and> k < 1280 \<longrightarrow> ?f ! k = 0"
    using low l(4) by simp
  have tail: "drop 1280 ?f = take 232960 track_data"
    using len td by simp
  have flen: "length ?f = 234240" using len td by simp
  show ?thesis using run dir zero tail flen by simp
qed

text \<open>
  C7: for track data of 35 track buffers, the TRKS payload has 1,280 + 35 * 6,656 bytes;
  directory entry \<open>i\<close> below 35, at offset \<open>8 * i\<close>, holds the little-endian starting block
  \<open>3 + 13 * i\<close>, the little-endian block count 13 and the little-endian 32-bit valid bit
  count; the bytes of the directory slots 35..159 are zero; and the payload from offset
  1,280 on is the track data.
\<close>

theorem create_trks_chunk_layout:
  assumes "length track_data = TRACKS_PER_DISK * BITS_TRACK_SIZE"
  shows "\<exists>chunk. create_trks_chunk track_data valid_bits_per_track = Some chunk
    \<and> data_length chunk = 160 * 8 + TRACKS_PER_DISK * BITS_TRACK_SIZE
    \<and> length (data chunk) = data_length chunk
    \<and> (\<forall>i<35. unat (le16_at (data chunk) (8 * i)) = 3 + 13 * i
          \<and> unat (le16_at (data chunk) (8 * i + 2)) = 13
          \<and> le32_at (data chunk) (8 * i + 4) = valid_bits_per_track)
    \<and> (\<forall>k. 8 * 35 \<le> k \<and> k < 8 * 160 \<longrightarrow> data chunk ! k = 0)
    \<and> drop 1280 (data chunk) = track_data"
proof -
  obtain chunk where c: "create_trks_chunk track_data valid_bits_per_track = Some chunk"
      "data_length chunk = 234240" "length (data chunk) = 234240"
      "\<forall>i<35. le16_at (data chunk) (8 * i) = 3 + 13 * of_nat i
          \<and> le16_at (data chunk) (8 * i + 2) = 13
          \<and> le32_at (data chunk) (8 * i + 4) = valid_bits_per_track"
      "\<forall>k. 280 \<le> k \<and> k < 1280 \<longrightarrow> data chunk ! k = 0"
      "drop 1280 (data chunk) = take (TRACKS_PER_DISK * BITS_TRACK_SIZE) track_data"
    using create_trks_chunk_ok[of track_data valid_bits_per_track] assms by auto
  have sb: "unat (3 + 13 * of_nat i :: uint16) = 3 + 13 * i" if "i < 35" for i
  proof -
    have "unat (of_nat (3 + 13 * i) :: uint16) = (3 + 13 * i) mod 2 ^ LENGTH(16)"
      by (rule unat_of_nat)
    moreover have "(3 + 13 * i) mod 2 ^ LENGTH(16) = 3 + 13 * i" using that by simp
    ultimately show ?thesis by simp
  qed
  have "\<forall>i<35. unat (le16_at (data chunk) (8 * i)) = 3 + 13 * i
          \<and> unat (le16_at (data chunk) (8 * i + 2)) = 13
          \<and> le32_at (data chunk) (8 * i + 4) = valid_bits_per_track"
    using c(4) sb by simp
  then show ?thesis using c assms by simp
qed

theorem create_trks_chunk_layout_witness:
  "\<exists>chunk. create_trks_chunk (replicate 232960 0xFF) 50632 = Some chunk
    \<and> data_length chunk = 234240
    \<and> unat (le16_at (data chunk) (8 * 34)) = 445
    \<and> unat (le16_at (data chunk) (8 * 34 + 2)) = 13
    \<and> le32_at (data chunk) (8 * 34 + 4) = 50632
    \<and> data chunk ! 280 = 0 \<and> data chunk ! 1279 = 0
    \<and> drop 1280 (data chunk) = replicate 232960 0xFF"
proof -
  obtain chunk where c: "create_trks_chunk (replicate 232960 0xFF) 50632 = Some chunk"
      "data_length chunk = 160 * 8 + TRACKS_PER_DISK * BITS_TRACK_SIZE"
      "\<forall>i<35. unat (le16_at (data chunk) (8 * i)) = 3 + 13 * i
          \<and> unat (le16_at (data chunk) (8 * i + 2)) = 13
          \<and> le32_at (data chunk) (8 * i + 4) = 50632"
      "\<forall>k. 8 * 35 \<le> k \<and> k < 8 * 160 \<longrightarrow> data chunk ! k = 0"
      "drop 1280 (data chunk) = replicate 232960 0xFF"
    using create_trks_chunk_layout[of "replicate 232960 0xFF" 50632] by auto
  show ?thesis
    using c(1,2,5) c(3)[rule_format, of 34] c(4)[rule_format, of 280] c(4)[rule_format, of 1279]
    by simp
qed

subsection \<open>CRC-32\<close>

lemma crc32_tab_length: "length crc32_tab = 256"
  by (simp add: crc32_tab_def)

lemma crc32_index: "unat ((x::uint32) AND 0xFF) < 256"
  using word_and_le1[of x "0xFF"] by (simp add: word_le_nat_alt)

lemma crc32_loop_eq:
  "p + sz \<le> length buf \<Longrightarrow> crc32_loop crc buf p sz =
     Some (fold (\<lambda>b c. crc32_tab ! unat ((c XOR ucast b) AND 0xFF) XOR drop_bit 8 c)
       (take sz (drop p buf)) crc)"
proof (induction sz arbitrary: crc p)
  case 0
  show ?case by simp
next
  case (Suc sz)
  have p: "p < length buf" using Suc.prems by simp
  have t: "take (Suc sz) (drop p buf) = buf ! p # take sz (drop (p + 1) buf)"
    using p by (simp add: Cons_nth_drop_Suc[symmetric])
  have "p + 1 + sz \<le> length buf" using Suc.prems by simp
  from Suc.IH[OF this] show ?case
    using p by (simp add: t array_get_def crc32_tab_length crc32_index)
qed

lemma crc32_eq:
  "sz \<le> length buf \<Longrightarrow> crc32 crc buf sz =
     Some (fold (\<lambda>b c. crc32_tab ! unat ((c XOR ucast b) AND 0xFF) XOR drop_bit 8 c)
       (take sz buf) (crc XOR NOT 0) XOR NOT 0)"
  using crc32_loop_eq[of 0 sz buf "crc XOR NOT 0"] by (simp add: crc32_def)

lemma crc32_take:
  "sz \<le> n \<Longrightarrow> n \<le> length buf \<Longrightarrow> crc32 crc (take n buf) sz = crc32 crc buf sz"
  by (simp add: crc32_eq min_absorb1)

lemma funpow8: "(f ^^ 8) x = f (f (f (f (f (f (f (f x)))))))"
  by (simp add: eval_nat_numeral)

lemma upt_256: "[0..<256] =
    [0x00, 0x01, 0x02, 0x03, 0x04, 0x05, 0x06, 0x07, 0x08, 0x09, 0x0A, 0x0B, 0x0C, 0x0D,
     0x0E, 0x0F, 0x10, 0x11, 0x12, 0x13, 0x14, 0x15, 0x16, 0x17, 0x18, 0x19, 0x1A, 0x1B,
     0x1C, 0x1D, 0x1E, 0x1F, 0x20, 0x21, 0x22, 0x23, 0x24, 0x25, 0x26, 0x27, 0x28, 0x29,
     0x2A, 0x2B, 0x2C, 0x2D, 0x2E, 0x2F, 0x30, 0x31, 0x32, 0x33, 0x34, 0x35, 0x36, 0x37,
     0x38, 0x39, 0x3A, 0x3B, 0x3C, 0x3D, 0x3E, 0x3F, 0x40, 0x41, 0x42, 0x43, 0x44, 0x45,
     0x46, 0x47, 0x48, 0x49, 0x4A, 0x4B, 0x4C, 0x4D, 0x4E, 0x4F, 0x50, 0x51, 0x52, 0x53,
     0x54, 0x55, 0x56, 0x57, 0x58, 0x59, 0x5A, 0x5B, 0x5C, 0x5D, 0x5E, 0x5F, 0x60, 0x61,
     0x62, 0x63, 0x64, 0x65, 0x66, 0x67, 0x68, 0x69, 0x6A, 0x6B, 0x6C, 0x6D, 0x6E, 0x6F,
     0x70, 0x71, 0x72, 0x73, 0x74, 0x75, 0x76, 0x77, 0x78, 0x79, 0x7A, 0x7B, 0x7C, 0x7D,
     0x7E, 0x7F, 0x80, 0x81, 0x82, 0x83, 0x84, 0x85, 0x86, 0x87, 0x88, 0x89, 0x8A, 0x8B,
     0x8C, 0x8D, 0x8E, 0x8F, 0x90, 0x91, 0x92, 0x93, 0x94, 0x95, 0x96, 0x97, 0x98, 0x99,
     0x9A, 0x9B, 0x9C, 0x9D, 0x9E, 0x9F, 0xA0, 0xA1, 0xA2, 0xA3, 0xA4, 0xA5, 0xA6, 0xA7,
     0xA8, 0xA9, 0xAA, 0xAB, 0xAC, 0xAD, 0xAE, 0xAF, 0xB0, 0xB1, 0xB2, 0xB3, 0xB4, 0xB5,
     0xB6, 0xB7, 0xB8, 0xB9, 0xBA, 0xBB, 0xBC, 0xBD, 0xBE, 0xBF, 0xC0, 0xC1, 0xC2, 0xC3,
     0xC4, 0xC5, 0xC6, 0xC7, 0xC8, 0xC9, 0xCA, 0xCB, 0xCC, 0xCD, 0xCE, 0xCF, 0xD0, 0xD1,
     0xD2, 0xD3, 0xD4, 0xD5, 0xD6, 0xD7, 0xD8, 0xD9, 0xDA, 0xDB, 0xDC, 0xDD, 0xDE, 0xDF,
     0xE0, 0xE1, 0xE2, 0xE3, 0xE4, 0xE5, 0xE6, 0xE7, 0xE8, 0xE9, 0xEA, 0xEB, 0xEC, 0xED,
     0xEE, 0xEF, 0xF0, 0xF1, 0xF2, 0xF3, 0xF4, 0xF5, 0xF6, 0xF7, 0xF8, 0xF9, 0xFA, 0xFB,
     0xFC, 0xFD, 0xFE, 0xFF :: nat]"
  by code_simp

lemma crc32_tab_entries: "map (crc32_shift ^^ 8)
    [0x00, 0x01, 0x02, 0x03, 0x04, 0x05, 0x06, 0x07, 0x08, 0x09, 0x0A, 0x0B, 0x0C, 0x0D,
     0x0E, 0x0F, 0x10, 0x11, 0x12, 0x13, 0x14, 0x15, 0x16, 0x17, 0x18, 0x19, 0x1A, 0x1B,
     0x1C, 0x1D, 0x1E, 0x1F, 0x20, 0x21, 0x22, 0x23, 0x24, 0x25, 0x26, 0x27, 0x28, 0x29,
     0x2A, 0x2B, 0x2C, 0x2D, 0x2E, 0x2F, 0x30, 0x31, 0x32, 0x33, 0x34, 0x35, 0x36, 0x37,
     0x38, 0x39, 0x3A, 0x3B, 0x3C, 0x3D, 0x3E, 0x3F, 0x40, 0x41, 0x42, 0x43, 0x44, 0x45,
     0x46, 0x47, 0x48, 0x49, 0x4A, 0x4B, 0x4C, 0x4D, 0x4E, 0x4F, 0x50, 0x51, 0x52, 0x53,
     0x54, 0x55, 0x56, 0x57, 0x58, 0x59, 0x5A, 0x5B, 0x5C, 0x5D, 0x5E, 0x5F, 0x60, 0x61,
     0x62, 0x63, 0x64, 0x65, 0x66, 0x67, 0x68, 0x69, 0x6A, 0x6B, 0x6C, 0x6D, 0x6E, 0x6F,
     0x70, 0x71, 0x72, 0x73, 0x74, 0x75, 0x76, 0x77, 0x78, 0x79, 0x7A, 0x7B, 0x7C, 0x7D,
     0x7E, 0x7F, 0x80, 0x81, 0x82, 0x83, 0x84, 0x85, 0x86, 0x87, 0x88, 0x89, 0x8A, 0x8B,
     0x8C, 0x8D, 0x8E, 0x8F, 0x90, 0x91, 0x92, 0x93, 0x94, 0x95, 0x96, 0x97, 0x98, 0x99,
     0x9A, 0x9B, 0x9C, 0x9D, 0x9E, 0x9F, 0xA0, 0xA1, 0xA2, 0xA3, 0xA4, 0xA5, 0xA6, 0xA7,
     0xA8, 0xA9, 0xAA, 0xAB, 0xAC, 0xAD, 0xAE, 0xAF, 0xB0, 0xB1, 0xB2, 0xB3, 0xB4, 0xB5,
     0xB6, 0xB7, 0xB8, 0xB9, 0xBA, 0xBB, 0xBC, 0xBD, 0xBE, 0xBF, 0xC0, 0xC1, 0xC2, 0xC3,
     0xC4, 0xC5, 0xC6, 0xC7, 0xC8, 0xC9, 0xCA, 0xCB, 0xCC, 0xCD, 0xCE, 0xCF, 0xD0, 0xD1,
     0xD2, 0xD3, 0xD4, 0xD5, 0xD6, 0xD7, 0xD8, 0xD9, 0xDA, 0xDB, 0xDC, 0xDD, 0xDE, 0xDF,
     0xE0, 0xE1, 0xE2, 0xE3, 0xE4, 0xE5, 0xE6, 0xE7, 0xE8, 0xE9, 0xEA, 0xEB, 0xEC, 0xED,
     0xEE, 0xEF, 0xF0, 0xF1, 0xF2, 0xF3, 0xF4, 0xF5, 0xF6, 0xF7, 0xF8, 0xF9, 0xFA, 0xFB,
     0xFC, 0xFD, 0xFE, 0xFF] = crc32_tab"
  by (simp add: funpow8 crc32_shift_def crc32_tab_def)

lemma crc32_tab_nth:
  assumes "i < 256"
  shows "crc32_tab ! i = (crc32_shift ^^ 8) (of_nat i)"
proof -
  have "map (\<lambda>i. (crc32_shift ^^ 8) (of_nat i)) [0..<256] = crc32_tab"
    unfolding upt_256 crc32_tab_entries[symmetric] by simp
  then have "crc32_tab ! i = map (\<lambda>i. (crc32_shift ^^ 8) (of_nat i)) [0..<256] ! i" by simp
  also have "\<dots> = (crc32_shift ^^ 8) (of_nat i)" using assms by (simp del: upt_Suc)
  finally show ?thesis .
qed

lemma crc32_shift_xor: "crc32_shift (a XOR b) = crc32_shift a XOR crc32_shift b"
proof -
  have d: "drop_bit 1 (a XOR b) = drop_bit 1 a XOR drop_bit 1 b"
    by (rule bit_eqI) (simp add: bit_simps)
  have b0: "bit (a XOR b) 0 \<longleftrightarrow> bit a 0 \<noteq> bit b 0" by (simp add: bit_xor_iff)
  show ?thesis
    unfolding crc32_shift_def d b0
    by (cases "bit a 0"; cases "bit b 0") (simp_all add: ac_simps)
qed

lemma crc32_shift_pow_xor:
  "(crc32_shift ^^ n) (a XOR b) = (crc32_shift ^^ n) a XOR (crc32_shift ^^ n) b"
  by (induction n) (simp_all add: crc32_shift_xor)

lemma crc32_shift_high:
  assumes "take_bit 8 h = 0" "k \<le> 8"
  shows "(crc32_shift ^^ k) h = drop_bit k h"
  using assms(2)
proof (induction k)
  case 0
  show ?case by simp
next
  case (Suc k)
  then have k: "k < 8" by simp
  have "bit (take_bit 8 h) k = bit h k" using k by (simp add: bit_take_bit_iff)
  then have "\<not> bit h k" using assms(1) by simp
  then have "\<not> bit (drop_bit k h) 0" by (simp add: bit_drop_bit_eq)
  then have "crc32_shift (drop_bit k h) = drop_bit (Suc k) h"
    by (simp add: crc32_shift_def)
  then show ?case using Suc k by simp
qed

lemma crc32_table_step:
  "crc32_tab ! unat ((c XOR ucast (b::uint8)) AND 0xFF) XOR drop_bit 8 c
     = (crc32_shift ^^ 8) (c XOR ucast b)"
proof -
  define x where "x = c XOR ucast b"
  define lo where "lo = take_bit 8 x"
  define hi where "hi = x XOR lo"
  have m: "x AND 0xFF = lo"
  proof -
    have "(0xFF::uint32) = mask 8" by (simp add: mask_eq_exp_minus_1)
    then show ?thesis by (simp add: take_bit_eq_mask lo_def)
  qed
  have i: "unat lo < 256" using crc32_index[of x] m by simp
  have t: "crc32_tab ! unat lo = (crc32_shift ^^ 8) lo"
    using crc32_tab_nth[OF i] by simp
  have hi0: "take_bit 8 hi = 0" by (simp add: hi_def lo_def)
  have hi: "drop_bit 8 hi = drop_bit 8 c"
    unfolding hi_def lo_def x_def
    by (rule bit_eqI) (auto simp: bit_simps dest: bit_imp_le_length)
  have e: "x = lo XOR hi"
    unfolding hi_def by (rule bit_eqI) (auto simp: bit_xor_iff)
  have "(crc32_shift ^^ 8) x = (crc32_shift ^^ 8) (lo XOR hi)"
    using e by simp
  also have "\<dots> = (crc32_shift ^^ 8) lo XOR (crc32_shift ^^ 8) hi"
    by (rule crc32_shift_pow_xor)
  also have "\<dots> = crc32_tab ! unat lo XOR drop_bit 8 c"
    using t crc32_shift_high[OF hi0, of 8] hi by simp
  finally have "(crc32_shift ^^ 8) x = crc32_tab ! unat (x AND 0xFF) XOR drop_bit 8 c"
    using m by simp
  then show ?thesis by (simp add: x_def)
qed

lemma crc32_bitwise_eq:
  "sz \<le> length buf \<Longrightarrow> crc32 0 buf sz = Some (crc32_bitwise (take sz buf))"
proof -
  assume sz: "sz \<le> length buf"
  have f: "(\<lambda>b c. crc32_tab ! unat ((c XOR ucast (b::uint8)) AND 0xFF) XOR drop_bit 8 c)
      = (\<lambda>b c. (crc32_shift ^^ 8) (c XOR ucast b))"
    by (intro ext) (rule crc32_table_step)
  have n: "x XOR NOT 0 = NOT x" for x :: uint32 by (rule bit_eqI) (simp add: bit_simps)
  show ?thesis
    using crc32_eq[OF sz, of 0] by (simp add: f crc32_bitwise_def n)
qed

subsection \<open>The WRIT chunk\<close>

lemma writ_entry_step:
  assumes room: "bi + 20 \<le> length d"
    and crc: "crc32 0 (drop (t * BITS_TRACK_SIZE) track_data) (unat ((vb + 7) div 8)) = Some c"
  shows "\<exists>d'. writ_entry track_data vb t (d, bi) = Some (d', bi + 20) \<and> length d' = length d
    \<and> d' ! bi = of_nat (t * 4) \<and> d' ! (bi + 1) = 1 \<and> d' ! (bi + 2) = 0
    \<and> d' ! (bi + 3) = d ! (bi + 3)
    \<and> le32_at d' (bi + 4) = c \<and> le32_at d' (bi + 8) = 640 \<and> le32_at d' (bi + 12) = vb - 640
    \<and> d' ! (bi + 16) = 0xFF \<and> d' ! (bi + 17) = 10 \<and> d' ! (bi + 18) = 0
    \<and> d' ! (bi + 19) = d ! (bi + 19)
    \<and> (\<forall>k. k < bi \<or> bi + 20 \<le> k \<longrightarrow> d' ! k = d ! k)"
  using room crc
  by (simp add: writ_entry_def Let_def write_uint8_def array_set_def write_uint32_eq
      le32_at_def join_32 nth_list_update)

lemma length_for_crc:
  assumes "unat (vb::uint32) \<le> 8 * BITS_TRACK_SIZE"
  shows "unat ((vb + 7) div 8) = (unat vb + 7) div 8" "(unat vb + 7) div 8 \<le> BITS_TRACK_SIZE"
proof -
  have "unat vb + unat (7::uint32) < 2 ^ LENGTH(32)" using assms by simp
  then have "unat (vb + 7) = unat vb + 7" by (simp add: unat_add_lem[THEN iffD1])
  then show "unat ((vb + 7) div 8) = (unat vb + 7) div 8" by (simp add: unat_div)
  show "(unat vb + 7) div 8 \<le> BITS_TRACK_SIZE" using assms by simp
qed

lemma writ_descriptor_at_cong:
  assumes "\<forall>k. off \<le> k \<and> k < off + 20 \<longrightarrow> d' ! k = d ! k"
  shows "writ_descriptor_at d' off t crc vb = writ_descriptor_at d off t crc vb"
  using assms by (simp add: writ_descriptor_at_def le32_at_def)

lemma writ_loop:
  fixes d0 :: "uint8 list"
  assumes len: "length d0 = 700" and zero: "\<forall>k<700. d0 ! k = 0"
    and td: "TRACKS_PER_DISK * BITS_TRACK_SIZE \<le> length track_data"
    and vb: "unat vb \<le> 8 * BITS_TRACK_SIZE"
  shows "\<exists>d bi. for_loop 0 TRACKS_PER_DISK (writ_entry track_data vb) (d0, 0) = Some (d, bi)
    \<and> length d = 700
    \<and> (\<forall>t<35. writ_descriptor_at d (20 * t) t
          (the (crc32 0 (drop (t * BITS_TRACK_SIZE) track_data) (unat ((vb + 7) div 8)))) vb)"
proof -
  let ?c = "\<lambda>t. the (crc32 0 (drop (t * BITS_TRACK_SIZE) track_data) (unat ((vb + 7) div 8)))"
  have crc: "crc32 0 (drop (t * BITS_TRACK_SIZE) track_data) (unat ((vb + 7) div 8)) = Some (?c t)"
    if "t < 35" for t
  proof -
    have "t * 6656 + 6656 \<le> 232960" using that by simp
    then have "6656 \<le> length (drop (t * BITS_TRACK_SIZE) track_data)" using td by simp
    then have "unat ((vb + 7) div 8) \<le> length (drop (t * BITS_TRACK_SIZE) track_data)"
      using length_for_crc[OF vb] by simp
    then show ?thesis by (simp add: crc32_eq)
  qed
  let ?I = "\<lambda>n (s :: uint8 list \<times> nat). length (fst s) = 700 \<and> snd s = 20 * n
      \<and> (\<forall>t<n. writ_descriptor_at (fst s) (20 * t) t (?c t) vb)
      \<and> (\<forall>k. 20 * n \<le> k \<and> k < 700 \<longrightarrow> fst s ! k = 0)"
  have "\<exists>s'. for_loop 0 TRACKS_PER_DISK (writ_entry track_data vb) (d0, 0) = Some s' \<and> ?I 35 s'"
  proof (rule for_loop_invariant[where I = ?I])
    show "?I 0 (d0, 0)" using len zero by simp
    show "(0::nat) \<le> 35" by simp
    fix j and s :: "uint8 list \<times> nat" assume j: "j < 35" and inv: "?I j s"
    obtain d where s: "s = (d, 20 * j)" using inv by (cases s) auto
    have dlen: "length d = 700" using inv s by simp
    have room: "20 * j + 20 \<le> length d" using j dlen by simp
    from writ_entry_step[OF room crc[OF j]]
    obtain d' where d': "writ_entry track_data vb j (d, 20 * j) = Some (d', 20 * j + 20)"
        "length d' = length d"
        "d' ! (20 * j) = of_nat (j * 4)" "d' ! (20 * j + 1) = 1" "d' ! (20 * j + 2) = 0"
        "d' ! (20 * j + 3) = d ! (20 * j + 3)"
        "le32_at d' (20 * j + 4) = ?c j" "le32_at d' (20 * j + 8) = 640"
        "le32_at d' (20 * j + 12) = vb - 640"
        "d' ! (20 * j + 16) = 0xFF" "d' ! (20 * j + 17) = 10" "d' ! (20 * j + 18) = 0"
        "d' ! (20 * j + 19) = d ! (20 * j + 19)"
        "\<forall>k. k < 20 * j \<or> 20 * j + 20 \<le> k \<longrightarrow> d' ! k = d ! k"
      by blast
    have z: "d ! (20 * j + 3) = 0" "d ! (20 * j + 19) = 0" using inv s j by simp_all
    have new: "writ_descriptor_at d' (20 * j) j (?c j) vb"
      using d'(3-13) z by (simp add: writ_descriptor_at_def)
    have old: "writ_descriptor_at d' (20 * t) t (?c t) vb" if "t < j" for t
    proof -
      have "20 * t + 20 \<le> 20 * j" using that by simp
      then have "\<forall>k. 20 * t \<le> k \<and> k < 20 * t + 20 \<longrightarrow> d' ! k = d ! k" using d'(14) by simp
      then have "writ_descriptor_at d' (20 * t) t (?c t) vb = writ_descriptor_at d (20 * t) t (?c t) vb"
        by (rule writ_descriptor_at_cong)
      then show ?thesis using inv s that by simp
    qed
    have rest: "\<forall>k. 20 * (j + 1) \<le> k \<and> k < 700 \<longrightarrow> d' ! k = 0"
      using d'(14) inv s by simp
    have "?I (j + 1) (d', 20 * j + 20)"
      using d'(2) dlen new old rest by (auto simp: less_Suc_eq)
    then show "\<exists>s'. writ_entry track_data vb j s = Some s' \<and> ?I (j + 1) s'"
      using d'(1) s by simp
  qed
  then show ?thesis by auto
qed

lemma create_writ_chunk_ok:
  assumes td: "TRACKS_PER_DISK * BITS_TRACK_SIZE \<le> length track_data"
    and vb: "unat vb \<le> 8 * BITS_TRACK_SIZE"
  shows "\<exists>chunk. create_writ_chunk track_data vb = Some chunk
    \<and> name chunk = 0x57524954 \<and> data_length chunk = 700 \<and> length (data chunk) = 700
    \<and> (\<forall>t<35. writ_descriptor_at (data chunk) (20 * t) t
          (the (crc32 0 (drop (t * BITS_TRACK_SIZE) track_data) (unat ((vb + 7) div 8)))) vb)"
proof -
  obtain d bi where l: "for_loop 0 TRACKS_PER_DISK (writ_entry track_data vb) (replicate 700 0, 0)
        = Some (d, bi)" "length d = 700"
      "\<forall>t<35. writ_descriptor_at d (20 * t) t
          (the (crc32 0 (drop (t * BITS_TRACK_SIZE) track_data) (unat ((vb + 7) div 8)))) vb"
    using writ_loop[of "replicate 700 0" track_data vb] td vb by auto
  have "create_writ_chunk track_data vb = Some \<lparr>name = 0x57524954, data_length = 700, data = d\<rparr>"
    using l(1) by (simp add: create_writ_chunk_def create_chunk_def)
  then show ?thesis using l(2,3) by simp
qed

text \<open>
  C8: for track data of 35 track buffers and a valid bit count of at most 53,248, the WRIT
  payload has 35 * 20 bytes, and for every track \<open>t\<close> below 35 the 20 bytes at offset
  \<open>20 * t\<close> are the descriptor of track \<open>t\<close> whose checksum is \<^verbatim>\<open>crc32\<close> with the
  initial value 0 over the first \<open>(valid_bit_count + 7) div 8\<close> bytes of the track's own
  buffer, leader included, which is the bitwise CRC-32 of those bytes; the bit count field
  is \<open>valid_bit_count - 640\<close> as a number whenever the valid bit count is at least 640.
\<close>

theorem create_writ_chunk_descriptors:
  assumes "length track_data = TRACKS_PER_DISK * BITS_TRACK_SIZE"
    and "unat valid_bits_per_track \<le> 8 * BITS_TRACK_SIZE"
  shows "\<exists>chunk. create_writ_chunk track_data valid_bits_per_track = Some chunk
    \<and> data_length chunk = TRACKS_PER_DISK * 20 \<and> length (data chunk) = TRACKS_PER_DISK * 20
    \<and> (\<forall>t<35. \<exists>crc.
          crc32 0 (take BITS_TRACK_SIZE (drop (t * BITS_TRACK_SIZE) track_data))
            ((unat valid_bits_per_track + 7) div 8) = Some crc
          \<and> crc = crc32_bitwise (take ((unat valid_bits_per_track + 7) div 8)
                (take BITS_TRACK_SIZE (drop (t * BITS_TRACK_SIZE) track_data)))
          \<and> writ_descriptor_at (data chunk) (20 * t) t crc valid_bits_per_track
          \<and> unat (data chunk ! (20 * t)) = t * 4
          \<and> (640 \<le> unat valid_bits_per_track \<longrightarrow>
               unat (le32_at (data chunk) (20 * t + 12)) = unat valid_bits_per_track - 640))"
proof -
  let ?n = "unat ((valid_bits_per_track + 7) div 8)"
  let ?c = "\<lambda>t. the (crc32 0 (drop (t * BITS_TRACK_SIZE) track_data) ?n)"
  have n: "?n = (unat valid_bits_per_track + 7) div 8" "?n \<le> BITS_TRACK_SIZE"
    using length_for_crc[OF assms(2)] by simp_all
  obtain chunk where c: "create_writ_chunk track_data valid_bits_per_track = Some chunk"
      "data_length chunk = 700" "length (data chunk) = 700"
      "\<forall>t<35. writ_descriptor_at (data chunk) (20 * t) t (?c t) valid_bits_per_track"
    using create_writ_chunk_ok[of track_data valid_bits_per_track] assms by auto
  have each: "\<exists>crc. crc32 0 (take BITS_TRACK_SIZE (drop (t * BITS_TRACK_SIZE) track_data))
            ((unat valid_bits_per_track + 7) div 8) = Some crc
          \<and> crc = crc32_bitwise (take ((unat valid_bits_per_track + 7) div 8)
                (take BITS_TRACK_SIZE (drop (t * BITS_TRACK_SIZE) track_data)))
          \<and> writ_descriptor_at (data chunk) (20 * t) t crc valid_bits_per_track
          \<and> unat (data chunk ! (20 * t)) = t * 4
          \<and> (640 \<le> unat valid_bits_per_track \<longrightarrow>
               unat (le32_at (data chunk) (20 * t + 12)) = unat valid_bits_per_track - 640)"
    if t: "t < 35" for t
  proof -
    have "t * 6656 + 6656 \<le> 232960" using t by simp
    then have tl: "BITS_TRACK_SIZE \<le> length (drop (t * BITS_TRACK_SIZE) track_data)"
      using assms(1) by simp
    then have le: "?n \<le> length (drop (t * BITS_TRACK_SIZE) track_data)" using n(2) by simp
    have some: "crc32 0 (drop (t * BITS_TRACK_SIZE) track_data) ?n = Some (?c t)"
      using le by (simp add: crc32_eq)
    have "crc32 0 (take BITS_TRACK_SIZE (drop (t * BITS_TRACK_SIZE) track_data)) ?n
        = crc32 0 (drop (t * BITS_TRACK_SIZE) track_data) ?n"
      using n(2) tl by (rule crc32_take)
    then have a: "crc32 0 (take BITS_TRACK_SIZE (drop (t * BITS_TRACK_SIZE) track_data))
            ((unat valid_bits_per_track + 7) div 8) = Some (?c t)"
      using some n(1) by simp
    have "(unat valid_bits_per_track + 7) div 8
        \<le> length (take BITS_TRACK_SIZE (drop (t * BITS_TRACK_SIZE) track_data))"
      using n tl by simp
    from crc32_bitwise_eq[OF this] a
    have r: "?c t = crc32_bitwise (take ((unat valid_bits_per_track + 7) div 8)
                (take BITS_TRACK_SIZE (drop (t * BITS_TRACK_SIZE) track_data)))"
      by simp
    have w: "writ_descriptor_at (data chunk) (20 * t) t (?c t) valid_bits_per_track"
      using c(4) t by simp
    have "unat (of_nat (t * 4) :: uint8) = (t * 4) mod 2 ^ LENGTH(8)" by (rule unat_of_nat)
    moreover have "(t * 4) mod 2 ^ LENGTH(8) = t * 4" using t by simp
    ultimately have b: "unat (data chunk ! (20 * t)) = t * 4"
      using w by (simp add: writ_descriptor_at_def)
    have d: "unat (le32_at (data chunk) (20 * t + 12)) = unat valid_bits_per_track - 640"
      if "640 \<le> unat valid_bits_per_track"
    proof -
      have "unat (640::uint32) \<le> unat valid_bits_per_track" using that by simp
      then have "unat (valid_bits_per_track - 640) = unat valid_bits_per_track - unat (640::uint32)"
        by (simp add: unat_sub word_le_nat_alt)
      then show ?thesis using w by (simp add: writ_descriptor_at_def)
    qed
    show ?thesis using a r w b d by blast
  qed
  show ?thesis using c(1,2,3) each by simp
qed

theorem create_writ_chunk_descriptors_witness:
  "\<exists>chunk crc. create_writ_chunk (replicate 232960 0) 50632 = Some chunk
    \<and> crc32 0 (replicate 6656 0) 6329 = Some crc
    \<and> writ_descriptor_at (data chunk) 680 34 crc 50632
    \<and> unat (data chunk ! 680) = 136
    \<and> unat (le32_at (data chunk) 692) = 49992"
proof -
  have h: "length (replicate 232960 (0::uint8)) = TRACKS_PER_DISK * BITS_TRACK_SIZE"
      "unat (50632::uint32) \<le> 8 * BITS_TRACK_SIZE"
    by simp_all
  from create_writ_chunk_descriptors[OF h]
  obtain chunk where c: "create_writ_chunk (replicate 232960 0) 50632 = Some chunk"
     and e: "\<forall>t<35. \<exists>crc.
          crc32 0 (take BITS_TRACK_SIZE (drop (t * BITS_TRACK_SIZE) (replicate 232960 0)))
            ((unat (50632::uint32) + 7) div 8) = Some crc
          \<and> crc = crc32_bitwise (take ((unat (50632::uint32) + 7) div 8)
                (take BITS_TRACK_SIZE (drop (t * BITS_TRACK_SIZE) (replicate 232960 0))))
          \<and> writ_descriptor_at (data chunk) (20 * t) t crc 50632
          \<and> unat (data chunk ! (20 * t)) = t * 4
          \<and> (640 \<le> unat (50632::uint32) \<longrightarrow>
               unat (le32_at (data chunk) (20 * t + 12)) = unat (50632::uint32) - 640)"
    by blast
  from e[rule_format, of 34] obtain crc where
      "crc32 0 (take BITS_TRACK_SIZE (drop (34 * BITS_TRACK_SIZE) (replicate 232960 0)))
            ((unat (50632::uint32) + 7) div 8) = Some crc"
      "writ_descriptor_at (data chunk) (20 * 34) 34 crc 50632"
      "unat (data chunk ! (20 * 34)) = 34 * 4"
      "unat (le32_at (data chunk) (20 * 34 + 12)) = unat (50632::uint32) - 640"
    by auto
  then show ?thesis using c by simp
qed

subsection \<open>The converter\<close>

lemma create_info_chunk_eq:
  "create_info_chunk = Some \<lparr>name = 0x494E464F, data_length = 60, data =
    [2, 1, 0, 0, 1, 100, 115, 107, 50, 119, 111, 122, 50, 32, 32, 32, 32, 32,
     32, 32, 32, 32, 32, 32, 32, 32, 32, 32, 32, 32, 32, 32, 32, 32, 32, 32,
     32, 1, 1, 32, 0, 0, 0, 0, 13, 0, 0, 0, 0, 0, 0, 0, 0, 0, 0, 0, 0, 0, 0, 0]\<rparr>"
  by code_simp

lemma write_uint32_be_ok:
  assumes "off + 3 < length d"
  shows "\<exists>d'. write_uint32_be d off v = Some d' \<and> length d' = length d"
  using assms by (simp add: write_uint32_be_def array_set_def)

lemma write_chunk_ok:
  assumes "off + 8 + data_length chunk \<le> length dest" "length (data chunk) = data_length chunk"
  shows "\<exists>dest'. write_chunk dest off chunk = Some (dest', 8 + data_length chunk)
    \<and> length dest' = length dest"
proof -
  obtain d1 where d1: "write_uint32_be dest off (name chunk) = Some d1" "length d1 = length dest"
    using write_uint32_be_ok[of off dest "name chunk"] assms by auto
  obtain d2 where d2: "write_uint32 d1 (off + 4) (of_nat (data_length chunk)) = Some d2"
      "length d2 = length d1"
    using write_uint32_le32[of "off + 4" d1 "of_nat (data_length chunk)"] assms d1(2) by auto
  have "memcpy d2 (off + 8) (data chunk) (data_length chunk)
      = Some (take (off + 8) d2 @ take (data_length chunk) (data chunk)
          @ drop (off + 8 + data_length chunk) d2)"
    using assms d1(2) d2(2) by (simp add: memcpy_def)
  moreover have "length (take (off + 8) d2 @ take (data_length chunk) (data chunk)
          @ drop (off + 8 + data_length chunk) d2) = length dest"
    using assms d1(2) d2(2) by simp
  ultimately show ?thesis using d1(1) d2(1) by (simp add: write_chunk_def)
qed

lemma track_loop:
  fixes td0 :: "uint8 list"
  assumes dsk: "length dsk = DSK_IMAGE_SIZE" and td0: "length td0 = TRACKS_PER_DISK * BITS_TRACK_SIZE"
  shows "\<exists>td. for_loop 0 TRACKS_PER_DISK (encode_track dsk sector_format) (td0, 0) = Some (td, 50632)
    \<and> length td = TRACKS_PER_DISK * BITS_TRACK_SIZE"
proof -
  let ?I = "\<lambda>(t::nat) (s :: uint8 list \<times> nat). length (fst s) = 232960 \<and> (0 < t \<longrightarrow> snd s = 50632)"
  have "\<exists>s'. for_loop 0 TRACKS_PER_DISK (encode_track dsk sector_format) (td0, 0) = Some s'
      \<and> ?I 35 s'"
  proof (rule for_loop_invariant[where I = ?I])
    show "?I 0 (td0, 0)" using td0 by simp
    show "(0::nat) \<le> 35" by simp
    fix j and s :: "uint8 list \<times> nat" assume j: "j < 35" and inv: "?I j s"
    obtain td vb where s: "s = (td, vb)" by (cases s)
    have tdl: "length td = 232960" using inv s by simp
    have b: "j * 6656 + 6656 \<le> 232960" "j * 4096 + 4096 \<le> 143360" using j by simp_all
    have src: "BYTES_PER_TRACK \<le> length (drop (j * BYTES_PER_TRACK) dsk)"
      using dsk b by simp
    have dst: "BITS_TRACK_SIZE \<le> length (drop (j * BITS_TRACK_SIZE) td)"
      using tdl b by simp
    from encode_bits_for_track_ok[OF src dst, of "int j" sector_format]
    obtain dest' where d': "encode_bits_for_track (drop (j * BITS_TRACK_SIZE) td)
          (drop (j * BYTES_PER_TRACK) dsk) (int j) sector_format = Some (dest', 50632)"
        "length dest' = length (drop (j * BITS_TRACK_SIZE) td)"
      by blast
    have "encode_track dsk sector_format j (td, vb)
        = Some (take (j * BITS_TRACK_SIZE) td @ dest', 50632)"
      using d'(1) by (simp add: encode_track_def)
    moreover have "length (take (j * BITS_TRACK_SIZE) td @ dest') = 232960"
      using d'(2) tdl b by simp
    ultimately show "\<exists>s'. encode_track dsk sector_format j s = Some s' \<and> ?I (j + 1) s'"
      using s by simp
  qed
  then show ?thesis by auto
qed

lemma woz_image_ok:
  assumes flen: "length file = DSK_IMAGE_SIZE"
  shows "\<exists>woz. woz_image junk file sector_format = Some (Inr woz) \<and> length woz = 235204
    \<and> crc32 0 (drop WOZ_HEADER_SIZE woz) (length woz - WOZ_HEADER_SIZE) = Some (le32_at woz 8)"
proof -
  define td0 where "td0 = map junk [0..<232960]"
  define woz0 where "woz0 = map junk [0..<235204]"
  have td0: "length td0 = TRACKS_PER_DISK * BITS_TRACK_SIZE" by (simp add: td0_def)
  have woz0: "length woz0 = 235204" by (simp add: woz0_def)
  have dsk: "take DSK_IMAGE_SIZE file = file" using flen by simp
  obtain td where td: "for_loop 0 TRACKS_PER_DISK (encode_track file sector_format) (td0, 0)
        = Some (td, 50632)" "length td = TRACKS_PER_DISK * BITS_TRACK_SIZE"
    using track_loop[OF flen td0, of sector_format] by blast
  let ?info = "\<lparr>name = 0x494E464F, data_length = 60, data =
    [2, 1, 0, 0, 1, 100, 115, 107, 50, 119, 111, 122, 50, 32, 32, 32, 32, 32,
     32, 32, 32, 32, 32, 32, 32, 32, 32, 32, 32, 32, 32, 32, 32, 32, 32, 32,
     32, 1, 1, 32, 0, 0, 0, 0, 13, 0, 0, 0, 0, 0, 0, 0, 0, 0, 0, 0, 0, 0, 0, 0::uint8]\<rparr>"
  let ?tmap = "\<lparr>name = 0x544D4150, data_length = 160, data = map tmap_rule [0..<160]\<rparr>"
  obtain trks where trks: "create_trks_chunk td 50632 = Some trks" "data_length trks = 234240"
      "length (data trks) = 234240"
    using create_trks_chunk_ok[of td 50632] td(2) by auto
  obtain writ where writ: "create_writ_chunk td 50632 = Some writ" "data_length writ = 700"
      "length (data writ) = 700"
    using create_writ_chunk_ok[of td 50632] td(2) by auto
  obtain h0 where h0: "write_uint32_be woz0 0 0x574F5A32 = Some h0" "length h0 = 235204"
    using write_uint32_be_ok[of 0 woz0 "0x574F5A32"] woz0 by auto
  let ?h = "h0[4 := 0xFF, 5 := 0x0A, 6 := 0x0D, 7 := 0x0A]"
  have h: "length ?h = 235204" using h0(2) by simp
  obtain w1 where w1: "write_chunk ?h 12 ?info = Some (w1, 68)" "length w1 = 235204"
    using write_chunk_ok[of 12 ?info ?h] h by auto
  obtain w2 where w2: "write_chunk w1 80 ?tmap = Some (w2, 168)" "length w2 = 235204"
    using write_chunk_ok[of 80 ?tmap w1] w1(2) by auto
  obtain w3 where w3: "write_chunk w2 248 trks = Some (w3, 234248)" "length w3 = 235204"
    using write_chunk_ok[of 248 trks w2] w2(2) trks(2,3) by auto
  obtain w4 where w4: "write_chunk w3 234496 writ = Some (w4, 708)" "length w4 = 235204"
    using write_chunk_ok[of 234496 writ w3] w3(2) writ(2,3) by auto
  obtain crc where crc: "crc32 0 (drop 12 w4) 235192 = Some crc"
    using w4(2) by (simp add: crc32_eq)
  let ?out = "w4[8 := ucast crc, 8 + 1 := ucast (drop_bit 8 crc),
     8 + 2 := ucast (drop_bit 16 crc), 8 + 3 := ucast (drop_bit 24 crc)]"
  have out: "write_uint32 w4 8 crc = Some ?out"
    using w4(2) by (intro write_uint32_eq) simp
  have run: "woz_image junk file sector_format = Some (Inr ?out)"
    using td(1) trks(1,2) writ(1,2) h0(1) h0(2) w1 w2 w3 w4 crc out
    by (simp add: woz_image_def Let_def dsk flen td0_def[symmetric] woz0_def[symmetric]
        create_info_chunk_eq create_tmap_chunk_eq total_chunk_size_def array_set_def)
  have olen: "length ?out = 235204" using w4(2) by simp
  have rest: "drop 12 ?out = drop 12 w4" by simp
  have stored: "le32_at ?out 8 = crc"
    using w4(2) by (simp add: le32_at_def join_32)
  show ?thesis
    using run olen rest stored crc by (intro exI[of _ ?out]) simp
qed

text \<open>
  C4: for an input file of 143,360 bytes the converter produces an image of 235,204 bytes in
  which the little-endian 32-bit value at offset 8 is what \<^verbatim>\<open>crc32\<close> returns, from the
  initial value 0, over all the bytes after the 12-byte header, and that value is the
  bitwise CRC-32 (reflected polynomial \<open>0xEDB88320\<close>, inverted before and after) of those
  bytes.
\<close>

theorem container_crc_self_check:
  assumes "length file = DSK_IMAGE_SIZE"
  shows "\<exists>woz. dsk2woz2 junk path file = Some (Inr woz)
    \<and> length woz = WOZ_HEADER_SIZE + 68 + 168 + (1288 + TRACKS_PER_DISK * BITS_TRACK_SIZE) + 708
    \<and> crc32 0 (drop WOZ_HEADER_SIZE woz) (length woz - WOZ_HEADER_SIZE) = Some (le32_at woz 8)
    \<and> le32_at woz 8 = crc32_bitwise (drop WOZ_HEADER_SIZE woz)"
proof -
  obtain woz where w: "woz_image junk file (sector_format_of path) = Some (Inr woz)"
      "length woz = 235204"
      "crc32 0 (drop WOZ_HEADER_SIZE woz) (length woz - WOZ_HEADER_SIZE) = Some (le32_at woz 8)"
    using woz_image_ok[OF assms, of junk "sector_format_of path"] by blast
  have "crc32 0 (drop WOZ_HEADER_SIZE woz) (length woz - WOZ_HEADER_SIZE)
      = Some (crc32_bitwise (take (length woz - WOZ_HEADER_SIZE) (drop WOZ_HEADER_SIZE woz)))"
    by (rule crc32_bitwise_eq) simp
  then have "le32_at woz 8 = crc32_bitwise (drop WOZ_HEADER_SIZE woz)"
    using w(3) by simp
  then show ?thesis using w by (simp add: dsk2woz2_def)
qed

theorem container_crc_self_check_witness:
  "\<exists>woz. dsk2woz2 (\<lambda>a. 0xCD) ''disk.po'' (replicate 143360 0xE5) = Some (Inr woz)
    \<and> length woz = 235204
    \<and> crc32 0 (drop 12 woz) (length woz - 12) = Some (le32_at woz 8)
    \<and> le32_at woz 8 = crc32_bitwise (drop 12 woz)"
  using container_crc_self_check[of "replicate 143360 0xE5" "\<lambda>a. 0xCD" "''disk.po''"]
  by simp

end
